theory Spec2Isabelle
  imports Main "HOL-Library.Sublist"
begin

section \<open>Strings as Python sees them\<close>

text \<open>
  The build script \<^verbatim>\<open>build.py\<close> works on Python \<^verbatim>\<open>str\<close> values. A string is modelled as
  \<^typ>\<open>string\<close>, each \<^typ>\<open>char\<close> read as the code point of the same number
  (U+0000 to U+00FF), so \<^const>\<open>length\<close> is Python's \<^verbatim>\<open>len\<close>. The character classes
  below are Python's, cut down to that range.
\<close>

definition newline :: char where
  "newline = CHR 0x0A"

text \<open>\<^verbatim>\<open>str.isspace\<close> for one character, which is also what \<^verbatim>\<open>\s\<close> matches in \<^verbatim>\<open>re\<close>.\<close>

definition whitespace_chars :: "char list" where
  "whitespace_chars =
     [CHR 0x09, CHR 0x0A, CHR 0x0B, CHR 0x0C, CHR 0x0D,
      CHR 0x1C, CHR 0x1D, CHR 0x1E, CHR 0x1F, CHR 0x20, CHR 0x85, CHR 0xA0]"

definition py_isspace :: "char \<Rightarrow> bool" where
  "py_isspace c = (c \<in> set whitespace_chars)"

text \<open>What \<^verbatim>\<open>\d\<close> matches.\<close>

definition is_digit :: "char \<Rightarrow> bool" where
  "is_digit c = (c \<in> set ''0123456789'')"

text \<open>\<^verbatim>\<open>str.lower\<close>, character by character: the upper-case letters A-Z and those of
  U+00C0 to U+00DE (without the multiplication sign U+00D7) go to the letter 32 places up;
  every other character stays.\<close>

definition upper_letters :: "char list" where
  "upper_letters = ''ABCDEFGHIJKLMNOPQRSTUVWXYZ'' @
     [CHR 0xC0, CHR 0xC1, CHR 0xC2, CHR 0xC3, CHR 0xC4, CHR 0xC5, CHR 0xC6, CHR 0xC7,
      CHR 0xC8, CHR 0xC9, CHR 0xCA, CHR 0xCB, CHR 0xCC, CHR 0xCD, CHR 0xCE, CHR 0xCF,
      CHR 0xD0, CHR 0xD1, CHR 0xD2, CHR 0xD3, CHR 0xD4, CHR 0xD5, CHR 0xD6, CHR 0xD8,
      CHR 0xD9, CHR 0xDA, CHR 0xDB, CHR 0xDC, CHR 0xDD, CHR 0xDE]"

definition lower_letters :: "char list" where
  "lower_letters = ''abcdefghijklmnopqrstuvwxyz'' @
     [CHR 0xE0, CHR 0xE1, CHR 0xE2, CHR 0xE3, CHR 0xE4, CHR 0xE5, CHR 0xE6, CHR 0xE7,
      CHR 0xE8, CHR 0xE9, CHR 0xEA, CHR 0xEB, CHR 0xEC, CHR 0xED, CHR 0xEE, CHR 0xEF,
      CHR 0xF0, CHR 0xF1, CHR 0xF2, CHR 0xF3, CHR 0xF4, CHR 0xF5, CHR 0xF6, CHR 0xF8,
      CHR 0xF9, CHR 0xFA, CHR 0xFB, CHR 0xFC, CHR 0xFD, CHR 0xFE]"

definition lower_char :: "char \<Rightarrow> char" where
  "lower_char c = (case map_of (zip upper_letters lower_letters) c of Some l \<Rightarrow> l | None \<Rightarrow> c)"

definition py_lower :: "string \<Rightarrow> string" where
  "py_lower s = map lower_char s"

text \<open>\<^verbatim>\<open>str.strip()\<close>: leading and trailing whitespace removed.\<close>

definition strip :: "string \<Rightarrow> string" where
  "strip s = rev (dropWhile py_isspace (rev (dropWhile py_isspace s)))"

text \<open>\<^verbatim>\<open>text.split("\n")\<close>: always at least one piece.\<close>

fun py_split :: "string \<Rightarrow> string list" where
  "py_split [] = [[]]"
| "py_split (c # cs) =
     (if c = newline then [] # py_split cs
      else (case py_split cs of
              [] \<Rightarrow> [[c]]
            | l # ls \<Rightarrow> (c # l) # ls))"

text \<open>\<^verbatim>\<open>"\n".join(result)\<close>.\<close>

fun join_nl :: "string list \<Rightarrow> string" where
  "join_nl [] = []"
| "join_nl [s] = s"
| "join_nl (s # t # ts) = s @ newline # join_nl (t # ts)"

text \<open>\<^verbatim>\<open>a in b\<close> on strings is \<^const>\<open>sublist\<close>, \<^verbatim>\<open>b.startswith(a)\<close> is \<^const>\<open>prefix\<close>
  and \<^verbatim>\<open>b.endswith(a)\<close> is \<^const>\<open>suffix\<close>.\<close>

section \<open>The pattern tables of \<^verbatim>\<open>format_content\<close>\<close>

text \<open>
  The heading patterns use only literal characters, \<^verbatim>\<open>\s\<close>, a character class and the
  end anchor \<^verbatim>\<open>$\<close>; every one starts with \<^verbatim>\<open>^\<close> and is tried with \<^verbatim>\<open>re.match\<close>, which
  anchors at the start anyway.
\<close>

datatype atom = Lit char | Space | OneOf string | Eos

definition lits :: "string \<Rightarrow> atom list" where
  "lits s = map Lit s"

text \<open>
  \<^verbatim>\<open>re.match(pattern, line, re.IGNORECASE)\<close> when the flag is set: a literal matches a
  character with the same lower-case form. \<^verbatim>\<open>$\<close> matches at the end of the string and before
  a newline that ends it.
\<close>

fun atom_ok :: "bool \<Rightarrow> atom \<Rightarrow> char \<Rightarrow> bool" where
  "atom_ok ic (Lit p) c = (if ic then lower_char c = lower_char p else c = p)"
| "atom_ok ic Space c = py_isspace c"
| "atom_ok ic (OneOf cs) c = (c \<in> set cs)"
| "atom_ok ic Eos c = False"

fun re_match :: "bool \<Rightarrow> atom list \<Rightarrow> string \<Rightarrow> bool" where
  "re_match ic [] s = True"
| "re_match ic (Eos # as) s = (if s = [] \<or> s = [newline] then re_match ic as s else False)"
| "re_match ic (a # as) [] = False"
| "re_match ic (a # as) (c # s) = (if atom_ok ic a c then re_match ic as s else False)"

definition h3_patterns :: "atom list list" where
  "h3_patterns =
     [lits ''About'' @ [Space],
      lits ''Take a history'',
      lits ''Examine the patient'',
      lits ''Arrange'' @ [Space],
      lits ''Immediate assessment'',
      lits ''Immediate management'',
      lits ''Initial Management'',
      lits ''Ongoing Management'',
      lits ''Secondary Assessment'',
      lits ''Start Treatment'',
      lits ''Classification of'',
      lits ''Confirming'',
      lits ''Certifying'',
      lits ''Registering'',
      lits ''Transferring'',
      lits ''Medical Examiner'',
      lits ''Hypertensive emergency'',
      lits ''Hypertensive urgency'',
      lits ''Malignant hypertension'',
      lits ''Standard discharge'',
      lits ''Isolated systolic'',
      lits ''Body mass index'',
      lits ''Assess fluid'',
      lits ''Fluid management'',
      lits ''Antibiotic'',
      lits ''Sepsis Six'',
      lits ''Source control'',
      lits ''Pharmacological'',
      lits ''Non-pharmacological'',
      lits ''Pre-operative'',
      lits ''Intra-operative'',
      lits ''Post-operative'',
      lits ''Type 1 diabetes'',
      lits ''Type 2 diabetes'',
      lits ''Initial treatment'',
      lits ''Ongoing treatment'',
      lits ''Discharge and Follow'',
      lits ''Advice and Referrals'']"

definition h4_patterns :: "atom list list" where
  "h4_patterns =
     [lits ''Risk factors'' @ [Eos],
      lits ''Symptoms'' @ [Eos],
      lits ''Medications'' @ [Eos],
      lits ''Red flags'' @ [Eos],
      lits ''Concerning features'' @ [Eos],
      lits ''General surgery'' @ [Eos],
      lits ''Gynaecology'' @ [Eos],
      lits ''Obstetrics'' @ [Eos],
      lits ''Urology'' @ [Eos],
      lits ''Medical causes'' @ [Eos],
      lits ''Vascular'' @ [Eos],
      lits ''Ruptured abdominal'',
      lits ''Ectopic pregnancy'' @ [Eos],
      lits ''Ureteric colic'' @ [Eos],
      lits ''Very ill'' @ [Eos],
      lits ''Urgent dialysis'' @ [Eos],
      lits ''Severe hyponatraemia'',
      lits ''Moderate hyponatraemia'',
      lits ''Mild hyponatraemia'',
      lits ''Acute'' @ [Eos],
      lits ''Chronic'' @ [Eos],
      lits ''Stage '' @ [OneOf ''123''],
      lits ''Grade '' @ [OneOf ''1234''],
      lits ''First-line'',
      lits ''Second-line'',
      lits ''Third-line'',
      lits ''For health professionals'',
      lits ''For patients'',
      lits ''References'' @ [Eos],
      lits ''Information'' @ [Eos],
      lits ''Emergency department'',
      lits ''Investigations'' @ [Eos],
      lits ''White coat'']"

text \<open>The alternatives of \<^verbatim>\<open>bold_patterns\<close>, in the order of the source; the pattern is
  matched without \<^verbatim>\<open>re.IGNORECASE\<close>.\<close>

definition bold_patterns :: "string list" where
  "bold_patterns =
     [''Exclude if:'', ''Ask about:'', ''Note:'', ''Consider:'', ''Important:'',
      ''If not excluded'', ''If suspected'', ''If the patient'', ''Ensure '', ''Avoid '',
      ''Check '', ''Perform '', ''Request '', ''Advise '', ''Document '', ''Calculate '',
      ''Aim to'', ''Do not '', ''Seek '', ''Start '', ''Stop '', ''Refer '', ''Recommend '']"

text \<open>\<^verbatim>\<open>re.match(bold_patterns, line)\<close>.\<close>

definition bold_match :: "string \<Rightarrow> bool" where
  "bold_match line = list_ex (\<lambda>p. re_match False (lits p) line) bold_patterns"

text \<open>The inner function \<^verbatim>\<open>matches_pattern_list\<close>.\<close>

definition matches_pattern_list :: "string \<Rightarrow> atom list list \<Rightarrow> bool" where
  "matches_pattern_list line patterns = list_ex (\<lambda>pattern. re_match True pattern line) patterns"

text \<open>
  \<^verbatim>\<open>numbered_pattern = re.compile(r"^(\d+)\.\s+(.+)")\<close>, as \<^verbatim>\<open>numbered_pattern.match\<close>:
  the two groups of the match, or \<open>None\<close>. The digits are the longest run (a shorter run
  would have to be followed by a dot). \<^verbatim>\<open>\s+\<close> is greedy and gives characters back one at
  a time until \<^verbatim>\<open>.+\<close>, which takes no newline, has something to match.
\<close>

definition dot_plus :: "string \<Rightarrow> string option" where
  "dot_plus s = (let m = takeWhile (\<lambda>c. c \<noteq> newline) s in if m = [] then None else Some m)"

fun spaces_then_rest :: "nat \<Rightarrow> string \<Rightarrow> string option" where
  "spaces_then_rest 0 r = None"
| "spaces_then_rest (Suc k) r =
     (case dot_plus (drop (Suc k) r) of
        Some g \<Rightarrow> Some g
      | None \<Rightarrow> spaces_then_rest k r)"

definition numbered_pattern :: "string \<Rightarrow> (string \<times> string) option" where
  "numbered_pattern line =
     (let num = takeWhile is_digit line in
      if num = [] then None
      else (case dropWhile is_digit line of
              [] \<Rightarrow> None
            | d # r \<Rightarrow>
                if d \<noteq> CHR ''.'' then None
                else (case spaces_then_rest (length (takeWhile py_isspace r)) r of
                        None \<Rightarrow> None
                      | Some text_part \<Rightarrow> Some (num, text_part))))"

section \<open>The loops of \<^verbatim>\<open>format_content\<close>\<close>

text \<open>The markup appended to \<^verbatim>\<open>result\<close>.\<close>

definition h3 :: "string \<Rightarrow> string" where
  "h3 line = ''<h3>'' @ line @ ''</h3>''"

definition h4 :: "string \<Rightarrow> string" where
  "h4 line = ''<h4>'' @ line @ ''</h4>''"

definition li :: "string \<Rightarrow> string" where
  "li item = ''<li>'' @ item @ ''</li>''"

definition strong :: "string \<Rightarrow> string" where
  "strong line = ''<strong>'' @ line @ ''</strong>''"

definition p :: "string \<Rightarrow> string" where
  "p line = ''<p>'' @ line @ ''</p>''"

definition numbered :: "string \<Rightarrow> string \<Rightarrow> string" where
  "numbered num text_part = ''<p><strong>'' @ num @ ''. '' @ text_part @ ''</strong></p>''"

definition ul :: "string list \<Rightarrow> string list" where
  "ul items = [''<ul>''] @ map li items @ [''</ul>'']"

text \<open>The lookahead of the short-line rule:
  \<^verbatim>\<open>while next_idx < len(lines) and not lines[next_idx].strip(): next_idx += 1\<close>.\<close>

function next_nonblank :: "string list \<Rightarrow> nat \<Rightarrow> nat" where
  "next_nonblank lines next_idx =
     (if next_idx < length lines \<and> strip (lines ! next_idx) = []
      then next_nonblank lines (next_idx + 1) else next_idx)"
  by pat_completeness auto
termination
  by (relation "measure (\<lambda>(lines, next_idx). length lines - next_idx)") auto

text \<open>The sub-item loop after a numbered line: the cursor \<open>i\<close> and \<open>sub_items\<close> on exit.\<close>

function collect_sub :: "string list \<Rightarrow> nat \<Rightarrow> string list \<Rightarrow> nat \<times> string list" where
  "collect_sub lines i sub_items =
     (if i < length lines then
        (let sub = strip (lines ! i) in
         if sub = [] then collect_sub lines (i + 1) sub_items
         else if numbered_pattern sub \<noteq> None then (i, sub_items)
         else if matches_pattern_list sub h3_patterns \<or> matches_pattern_list sub h4_patterns
           then (i, sub_items)
         else if bold_match sub then (i, sub_items)
         else collect_sub lines (i + 1) (sub_items @ [sub]))
      else (i, sub_items))"
  by pat_completeness auto
termination
  by (relation "measure (\<lambda>(lines, i, sub_items). length lines - i)") auto

text \<open>The lookahead of the bullet rule: \<open>j\<close> and \<open>list_items\<close> on exit.\<close>

function collect_list :: "string list \<Rightarrow> nat \<Rightarrow> string list \<Rightarrow> nat \<times> string list" where
  "collect_list lines j list_items =
     (if j < length lines then
        (let nxt = strip (lines ! j) in
         if nxt = [] then collect_list lines (j + 1) list_items
         else if numbered_pattern nxt \<noteq> None then (j, list_items)
         else if matches_pattern_list nxt h3_patterns \<or> matches_pattern_list nxt h4_patterns
           then (j, list_items)
         else if length nxt < 100 \<and> length nxt > 3
           then collect_list lines (j + 1) (list_items @ [nxt])
         else (j, list_items))
      else (j, list_items))"
  by pat_completeness auto
termination
  by (relation "measure (\<lambda>(lines, j, list_items). length lines - j)") auto

text \<open>The condition of the rule "short line before longer content = heading".\<close>

definition short_before_long :: "string list \<Rightarrow> nat \<Rightarrow> string \<Rightarrow> bool" where
  "short_before_long lines i line =
     (length line < 60 \<and> length line > 3
      \<and> \<not> suffix ''.'' line \<and> \<not> suffix '','' line
      \<and> numbered_pattern line = None
      \<and> (let next_idx = next_nonblank lines (i + 1) in
           next_idx < length lines \<and> length (strip (lines ! next_idx)) > 80))"

text \<open>
  One pass through the body of \<^verbatim>\<open>while i < len(lines)\<close>, entered with \<open>i < length lines\<close>:
  the new value of \<open>i\<close> and the strings appended to \<^verbatim>\<open>result\<close>, rule by rule in the order
  of the source. (\<^verbatim>\<open>prev_line\<close>, \<^verbatim>\<open>next_line\<close> and \<^verbatim>\<open>is_list_item\<close> are computed or defined
  there but never used.)
\<close>

definition step :: "string list \<Rightarrow> nat \<Rightarrow> nat \<times> string list" where
  "step lines i =
     (let line = strip (lines ! i) in
      if line = [] then (i + 1, [])
      else if length line < 80 \<and> matches_pattern_list line h3_patterns then (i + 1, [h3 line])
      else if length line < 80 \<and> matches_pattern_list line h4_patterns then (i + 1, [h4 line])
      else if short_before_long lines i line then (i + 1, [h3 line])
      else (case numbered_pattern line of
              Some (num, text_part) \<Rightarrow>
                (let (i', sub_items) = collect_sub lines (i + 1) [] in
                 (i', numbered num text_part # (if sub_items \<noteq> [] then ul sub_items else [])))
            | None \<Rightarrow>
                if length line < 100 \<and> length line > 3
                   \<and> length (snd (collect_list lines (i + 1) [line])) \<ge> 3
                then (let (j, list_items) = collect_list lines (i + 1) [line] in
                      (j, ul list_items))
                else if bold_match line \<or> suffix '':'' line then (i + 1, [strong line])
                else (i + 1, [p line])))"

declare next_nonblank.simps [simp del]
declare collect_sub.simps [simp del]
declare collect_list.simps [simp del]

text \<open>Both inner loops only move their cursor forward, so each pass of the main loop does.\<close>

lemma collect_sub_cursor: "i \<le> fst (collect_sub lines i sub_items)"
proof (induction lines i sub_items rule: collect_sub.induct)
  case (1 lines i sub_items)
  show ?case
    using "1.IH" by (subst collect_sub.simps) (auto simp: Let_def intro: Suc_leD)
qed

lemma collect_list_cursor: "j \<le> fst (collect_list lines j list_items)"
proof (induction lines j list_items rule: collect_list.induct)
  case (1 lines j list_items)
  show ?case
    using "1.IH" by (subst collect_list.simps) (auto simp: Let_def intro: Suc_leD)
qed

lemma step_cursor: "i < fst (step lines i)"
proof -
  have a: "i + 1 \<le> fst (collect_sub lines (i + 1) [])"
    by (rule collect_sub_cursor)
  have b: "i + 1 \<le> fst (collect_list lines (i + 1) [strip (lines ! i)])"
    by (rule collect_list_cursor)
  show ?thesis
    using a b by (auto simp: step_def Let_def split: option.splits prod.splits)
qed

text \<open>The main loop \<^verbatim>\<open>while i < len(lines)\<close>, with \<^verbatim>\<open>result\<close> as accumulator.\<close>

function format_loop :: "string list \<Rightarrow> nat \<Rightarrow> string list \<Rightarrow> string list" where
  "format_loop lines i result =
     (if i < length lines
      then format_loop lines (fst (step lines i)) (result @ snd (step lines i))
      else result)"
  by pat_completeness auto
termination
proof (relation "measure (\<lambda>(lines, i, result). length lines - i)")
  show "wf (measure (\<lambda>(lines, i, result). length lines - i))"
    by simp
next
  fix lines :: "string list" and i :: nat and result :: "string list"
  assume "i < length lines"
  then show "((lines, fst (step lines i), result @ snd (step lines i)), (lines, i, result))
        \<in> measure (\<lambda>(lines, i, result). length lines - i)"
    using step_cursor [of i lines] by simp
qed

declare format_loop.simps [simp del]

text \<open>The list \<^verbatim>\<open>result\<close> when the loop ends, and \<^verbatim>\<open>format_content\<close> itself.\<close>

definition format_result :: "string \<Rightarrow> string list" where
  "format_result text = format_loop (py_split text) 0 []"

definition format_content :: "string \<Rightarrow> string" where
  "format_content text = (if text = [] then [] else join_nl (format_result text))"

section \<open>\<^verbatim>\<open>get_section_colors\<close>\<close>

text \<open>A colour scheme is the dictionary with the keys \<^verbatim>\<open>emoji\<close>, \<^verbatim>\<open>bg\<close>, \<^verbatim>\<open>text\<close> and
  \<^verbatim>\<open>accent\<close>. The emoji lies outside the 8-bit range and is kept as its list of code
  points.\<close>

record scheme =
  emoji :: "nat list"
  bg :: string
  text_color :: string
  accent :: string

definition mk_scheme :: "nat list \<Rightarrow> string \<Rightarrow> string \<Rightarrow> string \<Rightarrow> scheme" where
  "mk_scheme e b t a = \<lparr>emoji = e, bg = b, text_color = t, accent = a\<rparr>"

text \<open>The dictionary \<^verbatim>\<open>color_schemes\<close>, in insertion order, which is the order Python
  iterates it in.\<close>

definition color_schemes :: "(string \<times> scheme) list" where
  "color_schemes =
     [(''Red Flags'', mk_scheme [0x1F6A8] ''#fde8e8'' ''#991b1b'' ''#dc3545''),
      (''Background'', mk_scheme [0x1F4CB] ''#dbeafe'' ''#1e3a5f'' ''#0066cc''),
      (''Assessment'', mk_scheme [0x1F50D] ''#d1fae5'' ''#065f46'' ''#17a2b8''),
      (''Secondary Assessment'', mk_scheme [0x1F50D] ''#d1fae5'' ''#065f46'' ''#17a2b8''),
      (''Ongoing Assessment'', mk_scheme [0x1F50D] ''#d1fae5'' ''#065f46'' ''#17a2b8''),
      (''Management'', mk_scheme [0x1F48A] ''#dcfce7'' ''#166534'' ''#28a745''),
      (''Ongoing Management'', mk_scheme [0x1F48A] ''#dcfce7'' ''#166534'' ''#28a745''),
      (''Discharge and Follow up'', mk_scheme [0x1F4E4] ''#ede9fe'' ''#5b21b6'' ''#6f42c1''),
      (''Advice and Referrals'', mk_scheme [0x1F4DE] ''#ffedd5'' ''#9a3412'' ''#ff8c42''),
      (''Information and References'', mk_scheme [0x1F4DA] ''#f3f4f6'' ''#374151'' ''#6b7280'')]"

definition default_scheme :: scheme where
  "default_scheme = mk_scheme [0x1F4DD] ''#e2e8f0'' ''#1e293b'' ''#475569''"

text \<open>\<^verbatim>\<open>key.lower() in header.lower()\<close>, the test of the partial match.\<close>

definition key_in_header :: "string \<Rightarrow> string \<Rightarrow> bool" where
  "key_in_header header key = sublist (py_lower key) (py_lower header)"

definition get_section_colors :: "string \<Rightarrow> scheme" where
  "get_section_colors header =
     (case map_of color_schemes header of
        Some scheme \<Rightarrow> scheme
      | None \<Rightarrow>
          (case find (\<lambda>(key, scheme). key_in_header header key) color_schemes of
             Some (key, scheme) \<Rightarrow> scheme
           | None \<Rightarrow> default_scheme))"

text \<open>
  The lookup as the specification words it, for comparison: the partial match also holds
  when the header appears within the key.
\<close>

definition spec_color_for :: "string \<Rightarrow> scheme" where
  "spec_color_for header =
     (case map_of color_schemes header of
        Some scheme \<Rightarrow> scheme
      | None \<Rightarrow>
          (case find (\<lambda>(key, scheme). sublist (py_lower key) (py_lower header)
                                      \<or> sublist (py_lower header) (py_lower key)) color_schemes of
             Some (key, scheme) \<Rightarrow> scheme
           | None \<Rightarrow> default_scheme))"

section \<open>\<^verbatim>\<open>determine_category\<close>\<close>

text \<open>
  The category configuration is the object read from \<^verbatim>\<open>categories.json\<close>. A dictionary is
  an association list in insertion order, looked up with \<^const>\<open>map_of\<close>; a key that may be
  absent (\<^verbatim>\<open>.get(key, default)\<close> in the source) is an option.
\<close>

record category_info =
  guidelines :: "string list option"

record categories_config =
  directorate_mapping :: "(string \<times> string) list option"
  categories :: "(string \<times> category_info) list option"

text \<open>\<^verbatim>\<open>info.get("guidelines", [])\<close> and the two \<^verbatim>\<open>categories_config.get(..., {})\<close>.\<close>

definition guidelines_of :: "category_info \<Rightarrow> string list" where
  "guidelines_of info = (case guidelines info of None \<Rightarrow> [] | Some titles \<Rightarrow> titles)"

definition mapping_of :: "categories_config \<Rightarrow> (string \<times> string) list" where
  "mapping_of config = (case directorate_mapping config of None \<Rightarrow> [] | Some m \<Rightarrow> m)"

definition categories_of :: "categories_config \<Rightarrow> (string \<times> category_info) list" where
  "categories_of config = (case categories config of None \<Rightarrow> [] | Some c \<Rightarrow> c)"

text \<open>\<^verbatim>\<open>key.lower() in directorate_lower or directorate_lower in key.lower()\<close>.\<close>

definition partial_match :: "string \<Rightarrow> string \<Rightarrow> bool" where
  "partial_match directorate key =
     (sublist (py_lower key) (py_lower directorate) \<or> sublist (py_lower directorate) (py_lower key))"

definition determine_category :: "string \<Rightarrow> string \<Rightarrow> categories_config \<Rightarrow> string" where
  "determine_category guideline_title directorate config =
     (if directorate \<noteq> [] \<and> map_of (mapping_of config) directorate \<noteq> None
      then the (map_of (mapping_of config) directorate)
      else (case find (\<lambda>(category, info). guideline_title \<in> set (guidelines_of info))
                   (categories_of config) of
              Some (category, info) \<Rightarrow> category
            | None \<Rightarrow>
                if directorate \<noteq> [] then
                  (case find (\<lambda>(key, v). partial_match directorate key) (mapping_of config) of
                     Some (key, v) \<Rightarrow> v
                   | None \<Rightarrow> ''Uncategorised'')
                else ''Uncategorised''))"

text \<open>
  The resolution order as the specification words it, for comparison: exact directorate
  match, then partial directorate match, then the title lists, then the default.
\<close>

definition spec_category :: "string \<Rightarrow> string \<Rightarrow> categories_config \<Rightarrow> string" where
  "spec_category guideline_title directorate config =
     (if directorate \<noteq> [] \<and> map_of (mapping_of config) directorate \<noteq> None
      then the (map_of (mapping_of config) directorate)
      else (case (if directorate \<noteq> []
                  then find (\<lambda>(key, v). partial_match directorate key) (mapping_of config)
                  else None) of
              Some (key, v) \<Rightarrow> v
            | None \<Rightarrow>
                (case find (\<lambda>(category, info). guideline_title \<in> set (guidelines_of info))
                        (categories_of config) of
                   Some (category, info) \<Rightarrow> category
                 | None \<Rightarrow> ''Uncategorised'')))"

section \<open>\<^verbatim>\<open>build_app\<close> and the exit status\<close>

text \<open>
  \<^verbatim>\<open>build_app\<close> reads and writes files and prints to the console. What the world outside
  answers is a parameter of the model: for every stretch of the function, whether a
  statement of it raises (a file operation that fails, a \<^verbatim>\<open>print\<close> that the console refuses)
  and what it returns. Signals from outside the program are not modelled.
\<close>

text \<open>What \<^verbatim>\<open>process_docx_file\<close> returns for a document that it could process.\<close>

record guideline =
  title :: string
  filename :: string
  category :: string

text \<open>
  One pass of the loop over the documents (lines 508 to 515): the document is processed and
  reported; or \<^verbatim>\<open>process_docx_file\<close> caught an exception, printed it and returned \<open>None\<close>;
  or an exception leaves the loop, because one of the \<^verbatim>\<open>print\<close> calls of the pass raises
  (the one in the handler of \<^verbatim>\<open>process_docx_file\<close> included).
\<close>

datatype doc_outcome = Processed guideline | Skipped | DocRaises

text \<open>One entry of \<^verbatim>\<open>static_files\<close> (lines 574 to 581): the file is not there; it is copied
  and reported; or copying it, or the \<^verbatim>\<open>print\<close> after it, raises.\<close>

datatype static_copy = Absent | Copied | CopyRaises

text \<open>
  The value of the key \<^verbatim>\<open>category_order\<close> of \<^verbatim>\<open>categories.json\<close>, as far as the loop of
  line 589 can tell values apart: the key is absent (\<^verbatim>\<open>.get\<close> gives the empty list); the
  value cannot be iterated (\<^verbatim>\<open>null\<close>, a number, a boolean); or it is a sequence of entries
  (the elements of a list, the characters of a string, the keys of an object). An entry is
  a string, another value that can be looked up in a dictionary, or a list or object, for
  which \<^verbatim>\<open>category in categories_data["categories"]\<close> raises.
\<close>

datatype order_entry = Name string | OtherHashable | Unhashable

datatype order_value = NoOrder | NotIterable | OrderList "order_entry list"

text \<open>The configuration as \<^verbatim>\<open>build_app\<close> loads it: the two keys \<^verbatim>\<open>determine_category\<close>
  reads, and \<^verbatim>\<open>category_order\<close>.\<close>

record loaded_config = categories_config +
  category_order :: order_value

text \<open>The loop of lines 589 to 595 raises a \<^verbatim>\<open>TypeError\<close>.\<close>

fun order_raises :: "order_value \<Rightarrow> bool" where
  "order_raises NoOrder = False"
| "order_raises NotIterable = True"
| "order_raises (OrderList entries) = (Unhashable \<in> set entries)"

record build_env =
  setup_raises :: bool
  categories_json :: "loaded_config option"
  listing_raises :: bool
  docx_files :: "doc_outcome list"
  error_message_raises :: bool
  regroup_raises :: bool
  template_html :: "string option"
  write_raises :: bool
  static_files :: "static_copy list"
  report_raises :: bool
  flush_fails :: bool

text \<open>
  \<^item> \<open>setup_raises\<close>: lines 479 to 490 raise (the two \<^verbatim>\<open>print\<close> calls of the banner,
    \<^verbatim>\<open>output_dir.mkdir(exist_ok=True)\<close>);
  \<^item> \<open>categories_json\<close>: the configuration loaded in lines 493 and 494, \<open>None\<close> when opening
    or parsing \<^verbatim>\<open>categories.json\<close> raises;
  \<^item> \<open>listing_raises\<close>: lines 497 to 500 raise (listing \<^verbatim>\<open>guidelines/*.docx\<close>, the
    \<^verbatim>\<open>print\<close> calls of the list);
  \<^item> \<open>docx_files\<close>: one entry for each document found, in sorted order: how the pass of the
    loop over the documents ends for it;
  \<^item> \<open>error_message_raises\<close>: the \<^verbatim>\<open>print\<close> of line 503 or of line 518 raises;
  \<^item> \<open>regroup_raises\<close>: lines 521 to 538 and 545 to 566 raise for another reason than a
    missing key \<^verbatim>\<open>categories\<close> (a category whose value is no object, for instance);
  \<^item> \<open>template_html\<close>: the text of \<^verbatim>\<open>template.html\<close>, \<open>None\<close> when reading it raises;
  \<^item> \<open>write_raises\<close>: opening or writing \<^verbatim>\<open>dist/index.html\<close> raises;
  \<^item> \<open>static_files\<close>: what happens to each of the static assets, in the order of the loop;
  \<^item> \<open>report_raises\<close>: lines 583 to 595 raise for another reason than the value of
    \<^verbatim>\<open>category_order\<close> (a \<^verbatim>\<open>print\<close> of the report that the console refuses, a value of
    \<^verbatim>\<open>categories\<close> that has no method \<^verbatim>\<open>values\<close>);
  \<^item> \<open>flush_fails\<close>: the interpreter cannot flush \<^verbatim>\<open>stdout\<close> when it shuts down.
\<close>

text \<open>The list \<^verbatim>\<open>guidelines\<close>: the documents that were processed.\<close>

definition processed :: "build_env \<Rightarrow> guideline list" where
  "processed env =
     List.map_filter (\<lambda>outcome. case outcome of Processed guideline \<Rightarrow> Some guideline | _ \<Rightarrow> None)
       (docx_files env)"

text \<open>How the call of \<^verbatim>\<open>build_app\<close> ends, and whether \<^verbatim>\<open>dist/index.html\<close> was written, that
  is, whether the statement of lines 569 and 570 was completed.\<close>

datatype ending = Returned bool | Raised

record build_result =
  ending :: ending
  page_written :: bool

definition build_app :: "build_env \<Rightarrow> build_result" where
  "build_app env =
     (if setup_raises env then \<lparr>ending = Raised, page_written = False\<rparr>
      else (case categories_json env of
              None \<Rightarrow> \<lparr>ending = Raised, page_written = False\<rparr>
            | Some categories_config \<Rightarrow>
                if listing_raises env then \<lparr>ending = Raised, page_written = False\<rparr>
                else if docx_files env = [] then
                  (if error_message_raises env then \<lparr>ending = Raised, page_written = False\<rparr>
                   else \<lparr>ending = Returned False, page_written = False\<rparr>)
                else if DocRaises \<in> set (docx_files env)
                  then \<lparr>ending = Raised, page_written = False\<rparr>
                else if processed env = [] then
                  (if error_message_raises env then \<lparr>ending = Raised, page_written = False\<rparr>
                   else \<lparr>ending = Returned False, page_written = False\<rparr>)
                else (case categories categories_config of
                        None \<Rightarrow> \<lparr>ending = Raised, page_written = False\<rparr>
                      | Some cs \<Rightarrow>
                          if regroup_raises env then \<lparr>ending = Raised, page_written = False\<rparr>
                          else (case template_html env of
                                  None \<Rightarrow> \<lparr>ending = Raised, page_written = False\<rparr>
                                | Some template_content \<Rightarrow>
                                    if write_raises env
                                    then \<lparr>ending = Raised, page_written = False\<rparr>
                                    else if CopyRaises \<in> set (static_files env)
                                    then \<lparr>ending = Raised, page_written = True\<rparr>
                                    else if report_raises env
                                            \<or> order_raises (category_order categories_config)
                                    then \<lparr>ending = Raised, page_written = True\<rparr>
                                    else \<lparr>ending = Returned True, page_written = True\<rparr>))))"

text \<open>
  The status the script asks for: \<^verbatim>\<open>exit(0 if success else 1)\<close>, and status 1 from the
  interpreter when \<^verbatim>\<open>build_app\<close> raised and nothing caught it. The script is run as
  \<^verbatim>\<open>python build.py\<close>, so that line 601 is reached and the builtin \<^verbatim>\<open>exit\<close> is there.
\<close>

fun exit_argument :: "ending \<Rightarrow> nat" where
  "exit_argument (Returned success) = (if success then 0 else 1)"
| "exit_argument Raised = 1"

text \<open>
  The status the process ends with: when the interpreter cannot flush \<^verbatim>\<open>stdout\<close> while it
  shuts down, the status is 120, whatever was asked for.
\<close>

definition exit_status :: "build_env \<Rightarrow> nat" where
  "exit_status env =
     (if flush_fails env then 120 else exit_argument (ending (build_app env)))"

section \<open>Evaluation on concrete text\<close>

text \<open>The lower-case form of the newline and of every printable ASCII character, computed
  once from the table.\<close>

lemma lower_char_printable:
  "lower_char (CHR 0x0A) = CHR 0x0A"
  "lower_char (CHR '' '') = CHR '' ''"
  "lower_char (CHR ''!'') = CHR ''!''"
  "lower_char (CHR 0x22) = CHR 0x22"
  "lower_char (CHR ''#'') = CHR ''#''"
  "lower_char (CHR ''$'') = CHR ''$''"
  "lower_char (CHR ''%'') = CHR ''%''"
  "lower_char (CHR ''&'') = CHR ''&''"
  "lower_char (CHR 0x27) = CHR 0x27"
  "lower_char (CHR ''('') = CHR ''(''"
  "lower_char (CHR '')'') = CHR '')''"
  "lower_char (CHR ''*'') = CHR ''*''"
  "lower_char (CHR ''+'') = CHR ''+''"
  "lower_char (CHR '','') = CHR '',''"
  "lower_char (CHR ''-'') = CHR ''-''"
  "lower_char (CHR ''.'') = CHR ''.''"
  "lower_char (CHR ''/'') = CHR ''/''"
  "lower_char (CHR ''0'') = CHR ''0''"
  "lower_char (CHR ''1'') = CHR ''1''"
  "lower_char (CHR ''2'') = CHR ''2''"
  "lower_char (CHR ''3'') = CHR ''3''"
  "lower_char (CHR ''4'') = CHR ''4''"
  "lower_char (CHR ''5'') = CHR ''5''"
  "lower_char (CHR ''6'') = CHR ''6''"
  "lower_char (CHR ''7'') = CHR ''7''"
  "lower_char (CHR ''8'') = CHR ''8''"
  "lower_char (CHR ''9'') = CHR ''9''"
  "lower_char (CHR '':'') = CHR '':''"
  "lower_char (CHR '';'') = CHR '';''"
  "lower_char (CHR ''<'') = CHR ''<''"
  "lower_char (CHR ''='') = CHR ''=''"
  "lower_char (CHR ''>'') = CHR ''>''"
  "lower_char (CHR ''?'') = CHR ''?''"
  "lower_char (CHR ''@'') = CHR ''@''"
  "lower_char (CHR ''A'') = CHR ''a''"
  "lower_char (CHR ''B'') = CHR ''b''"
  "lower_char (CHR ''C'') = CHR ''c''"
  "lower_char (CHR ''D'') = CHR ''d''"
  "lower_char (CHR ''E'') = CHR ''e''"
  "lower_char (CHR ''F'') = CHR ''f''"
  "lower_char (CHR ''G'') = CHR ''g''"
  "lower_char (CHR ''H'') = CHR ''h''"
  "lower_char (CHR ''I'') = CHR ''i''"
  "lower_char (CHR ''J'') = CHR ''j''"
  "lower_char (CHR ''K'') = CHR ''k''"
  "lower_char (CHR ''L'') = CHR ''l''"
  "lower_char (CHR ''M'') = CHR ''m''"
  "lower_char (CHR ''N'') = CHR ''n''"
  "lower_char (CHR ''O'') = CHR ''o''"
  "lower_char (CHR ''P'') = CHR ''p''"
  "lower_char (CHR ''Q'') = CHR ''q''"
  "lower_char (CHR ''R'') = CHR ''r''"
  "lower_char (CHR ''S'') = CHR ''s''"
  "lower_char (CHR ''T'') = CHR ''t''"
  "lower_char (CHR ''U'') = CHR ''u''"
  "lower_char (CHR ''V'') = CHR ''v''"
  "lower_char (CHR ''W'') = CHR ''w''"
  "lower_char (CHR ''X'') = CHR ''x''"
  "lower_char (CHR ''Y'') = CHR ''y''"
  "lower_char (CHR ''Z'') = CHR ''z''"
  "lower_char (CHR ''['') = CHR ''[''"
  "lower_char (CHR 0x5C) = CHR 0x5C"
  "lower_char (CHR '']'') = CHR '']''"
  "lower_char (CHR ''^'') = CHR ''^''"
  "lower_char (CHR ''_'') = CHR ''_''"
  "lower_char (CHR 0x60) = CHR 0x60"
  "lower_char (CHR ''a'') = CHR ''a''"
  "lower_char (CHR ''b'') = CHR ''b''"
  "lower_char (CHR ''c'') = CHR ''c''"
  "lower_char (CHR ''d'') = CHR ''d''"
  "lower_char (CHR ''e'') = CHR ''e''"
  "lower_char (CHR ''f'') = CHR ''f''"
  "lower_char (CHR ''g'') = CHR ''g''"
  "lower_char (CHR ''h'') = CHR ''h''"
  "lower_char (CHR ''i'') = CHR ''i''"
  "lower_char (CHR ''j'') = CHR ''j''"
  "lower_char (CHR ''k'') = CHR ''k''"
  "lower_char (CHR ''l'') = CHR ''l''"
  "lower_char (CHR ''m'') = CHR ''m''"
  "lower_char (CHR ''n'') = CHR ''n''"
  "lower_char (CHR ''o'') = CHR ''o''"
  "lower_char (CHR ''p'') = CHR ''p''"
  "lower_char (CHR ''q'') = CHR ''q''"
  "lower_char (CHR ''r'') = CHR ''r''"
  "lower_char (CHR ''s'') = CHR ''s''"
  "lower_char (CHR ''t'') = CHR ''t''"
  "lower_char (CHR ''u'') = CHR ''u''"
  "lower_char (CHR ''v'') = CHR ''v''"
  "lower_char (CHR ''w'') = CHR ''w''"
  "lower_char (CHR ''x'') = CHR ''x''"
  "lower_char (CHR ''y'') = CHR ''y''"
  "lower_char (CHR ''z'') = CHR ''z''"
  "lower_char (CHR ''{'') = CHR ''{''"
  "lower_char (CHR ''|'') = CHR ''|''"
  "lower_char (CHR ''}'') = CHR ''}''"
  "lower_char (CHR ''~'') = CHR ''~''"
  by (simp_all add: lower_char_def upper_letters_def lower_letters_def)

lemmas pattern_eval =
  matches_pattern_list_def h3_patterns_def h4_patterns_def lits_def lower_char_printable
  py_isspace_def whitespace_chars_def newline_def bold_match_def bold_patterns_def is_digit_def
  strip_def numbered_pattern_def dot_plus_def

lemmas markup_eval = h3_def h4_def li_def ul_def p_def strong_def numbered_def

lemmas loop_eval =
  step_def short_before_long_def format_content_def format_result_def
  format_loop.simps collect_sub.simps collect_list.simps next_nonblank.simps
  Let_def suffix_to_prefix

section \<open>Blank input\<close>

lemma py_split_chars_all: "\<forall>l\<in>set (py_split content). set l \<subseteq> set content"
  by (induction content) (auto split: list.splits)

lemma py_split_chars: "l \<in> set (py_split content) \<Longrightarrow> set l \<subseteq> set content"
  using py_split_chars_all by blast

lemma strip_blank: "\<forall>c\<in>set s. py_isspace c \<Longrightarrow> strip s = []"
proof -
  assume "\<forall>c\<in>set s. py_isspace c"
  then have d: "dropWhile py_isspace s = []" by (simp add: dropWhile_eq_Nil_conv)
  show ?thesis unfolding strip_def d by simp
qed

lemma step_blank: "strip (lines ! i) = [] \<Longrightarrow> step lines i = (i + 1, [])"
  by (simp add: step_def)

lemma format_loop_blank:
  "\<forall>l\<in>set lines. strip l = [] \<Longrightarrow> format_loop lines i result = result"
proof (induction lines i result rule: format_loop.induct)
  case (1 lines i result)
  show ?case
  proof (cases "i < length lines")
    case True
    then have "strip (lines ! i) = []" using "1.prems" by simp
    then have s: "step lines i = (i + 1, [])" by (rule step_blank)
    have "format_loop lines (fst (step lines i)) (result @ snd (step lines i)) = result @ snd (step lines i)"
      using True "1.prems" by (rule "1.IH")
    then show ?thesis using True s by (subst format_loop.simps) simp
  next
    case False
    then show ?thesis by (subst format_loop.simps) simp
  qed
qed

text \<open>
  Claim C7. \<^verbatim>\<open>format_content\<close> of the empty string is the empty string, and so is
  \<^verbatim>\<open>format_content\<close> of any text made of whitespace only (blank lines, spaces and every
  other character \<^verbatim>\<open>str.strip\<close> removes): blank lines are skipped and nothing is appended to
  \<^verbatim>\<open>result\<close>.
\<close>

theorem format_content_blank:
  "format_content [] = [] \<and> ((\<forall>c\<in>set text. py_isspace c) \<longrightarrow> format_content text = [])"
proof (intro conjI impI)
  show "format_content [] = []" by (simp add: format_content_def)
next
  assume ws: "\<forall>c\<in>set text. py_isspace c"
  have "\<forall>l\<in>set (py_split text). strip l = []"
  proof
    fix l assume "l \<in> set (py_split text)"
    then have "set l \<subseteq> set text" by (rule py_split_chars)
    then have "\<forall>c\<in>set l. py_isspace c" using ws by blast
    then show "strip l = []" by (rule strip_blank)
  qed
  then have "format_result text = []"
    unfolding format_result_def by (rule format_loop_blank)
  then show "format_content text = []" by (simp add: format_content_def)
qed

theorem format_content_blank_witness:
  "(\<forall>c\<in>set ''  \<newline> \<newline>''. py_isspace c) = True \<and> format_content ''  \<newline> \<newline>'' = []"
proof -
  have h: "\<forall>c\<in>set ''  \<newline> \<newline>''. py_isspace c"
    by (simp add: py_isspace_def whitespace_chars_def)
  show ?thesis
    using h format_content_blank [of "''  \<newline> \<newline>''"] by simp
qed

section \<open>The colour lookup\<close>

lemmas lookup_eval =
  key_in_header_def partial_match_def py_lower_def lower_char_printable sublist_code
  color_schemes_def default_scheme_def mk_scheme_def

lemma color_keys_distinct: "distinct (map fst color_schemes)"
  by (simp add: color_schemes_def)

lemma find_first:
  assumes "i < length xs" and "P (xs ! i)" and "\<forall>j<i. \<not> P (xs ! j)"
  shows "find P xs = Some (xs ! i)"
  using assms by (auto simp: find_Some_iff)

lemma find_none: "\<forall>x\<in>set xs. \<not> P x \<Longrightarrow> find P xs = None"
  by (simp add: find_None_iff)

text \<open>
  Claim C2, as stated, fails: for the header \<^verbatim>\<open>Red\<close>, which appears within the key
  \<^verbatim>\<open>Red Flags\<close> but contains no key, \<^verbatim>\<open>get_section_colors\<close> returns the default scheme,
  where the lookup of the claim returns the scheme of \<^verbatim>\<open>Red Flags\<close>.
\<close>

theorem get_section_colors_counterexample:
  "get_section_colors ''Red'' = default_scheme
   \<and> spec_color_for ''Red'' = snd (color_schemes ! 0)
   \<and> get_section_colors ''Red'' \<noteq> spec_color_for ''Red''"
  by (simp add: get_section_colors_def spec_color_for_def lookup_eval)

text \<open>
  Claim C2, amended. For every header, \<^verbatim>\<open>get_section_colors\<close> returns (1) the scheme of the
  table key equal to the header, if there is one; else (2) the scheme of the first key, in
  table order, whose lower-case form appears within the lower-case header; else (3) the
  default scheme. The header \<^verbatim>\<open>Red Flags for Sepsis\<close> gets the scheme of \<^verbatim>\<open>Red Flags\<close>.
\<close>

theorem get_section_colors_lookup:
  "(\<forall>scheme. (header, scheme) \<in> set color_schemes \<longrightarrow> get_section_colors header = scheme)
   \<and> (\<forall>i. header \<notin> fst ` set color_schemes \<and> i < length color_schemes
          \<and> sublist (py_lower (fst (color_schemes ! i))) (py_lower header)
          \<and> (\<forall>j<i. \<not> sublist (py_lower (fst (color_schemes ! j))) (py_lower header))
        \<longrightarrow> get_section_colors header = snd (color_schemes ! i))
   \<and> (header \<notin> fst ` set color_schemes
        \<and> (\<forall>key\<in>fst ` set color_schemes. \<not> sublist (py_lower key) (py_lower header))
        \<longrightarrow> get_section_colors header = default_scheme)
   \<and> get_section_colors ''Red Flags for Sepsis'' = snd (color_schemes ! 0)
   \<and> fst (color_schemes ! 0) = ''Red Flags''"
proof (intro conjI allI impI)
  fix scheme assume "(header, scheme) \<in> set color_schemes"
  then have "map_of color_schemes header = Some scheme"
    using color_keys_distinct by simp
  then show "get_section_colors header = scheme"
    by (simp add: get_section_colors_def)
next
  fix i
  assume a: "header \<notin> fst ` set color_schemes \<and> i < length color_schemes
          \<and> sublist (py_lower (fst (color_schemes ! i))) (py_lower header)
          \<and> (\<forall>j<i. \<not> sublist (py_lower (fst (color_schemes ! j))) (py_lower header))"
  then have none: "map_of color_schemes header = None"
    by (simp add: map_of_eq_None_iff)
  have "find (\<lambda>(key, scheme). key_in_header header key) color_schemes = Some (color_schemes ! i)"
    using a by (intro find_first) (auto simp: key_in_header_def case_prod_beta)
  then show "get_section_colors header = snd (color_schemes ! i)"
    using none by (simp add: get_section_colors_def case_prod_beta)
next
  assume a: "header \<notin> fst ` set color_schemes
        \<and> (\<forall>key\<in>fst ` set color_schemes. \<not> sublist (py_lower key) (py_lower header))"
  then have none: "map_of color_schemes header = None"
    by (simp add: map_of_eq_None_iff)
  have "find (\<lambda>(key, scheme). key_in_header header key) color_schemes = None"
    using a by (intro find_none) (auto simp: key_in_header_def)
  then show "get_section_colors header = default_scheme"
    using none by (simp add: get_section_colors_def)
next
  show "get_section_colors ''Red Flags for Sepsis'' = snd (color_schemes ! 0)"
    by (simp add: get_section_colors_def lookup_eval)
next
  show "fst (color_schemes ! 0) = ''Red Flags''"
    by (simp add: color_schemes_def)
qed

lemma color_keys:
  "map fst color_schemes =
     [''Red Flags'', ''Background'', ''Assessment'', ''Secondary Assessment'',
      ''Ongoing Assessment'', ''Management'', ''Ongoing Management'',
      ''Discharge and Follow up'', ''Advice and Referrals'', ''Information and References'']"
  by (simp add: color_schemes_def)

lemma color_key_nth: "i < length color_schemes \<Longrightarrow> fst (color_schemes ! i) = map fst color_schemes ! i"
  by simp

lemma color_schemes_length: "length color_schemes = 10"
  by (simp add: color_schemes_def)

lemma less_5_cases: "(j::nat) < 5 \<Longrightarrow> j = 0 \<or> j = 1 \<or> j = 2 \<or> j = 3 \<or> j = 4"
  by arith

lemmas string_eval = py_lower_def lower_char_printable sublist_code

theorem get_section_colors_lookup_witness:
  "get_section_colors ''Background'' = snd (color_schemes ! 1)
   \<and> get_section_colors ''Ongoing management plan'' = snd (color_schemes ! 5)
   \<and> get_section_colors ''Red'' = default_scheme"
proof -
  have keys: "fst ` set color_schemes = set (map fst color_schemes)"
    by simp
  have 1: "(''Background'', snd (color_schemes ! 1)) \<in> set color_schemes"
    by (simp add: color_schemes_def)
  have a: "''Ongoing management plan'' \<notin> fst ` set color_schemes"
    unfolding keys color_keys by simp
  have b: "sublist (py_lower (fst (color_schemes ! 5))) (py_lower ''Ongoing management plan'')"
    by (simp add: color_key_nth color_schemes_length color_keys string_eval)
  have c: "\<forall>j<5. \<not> sublist (py_lower (fst (color_schemes ! j))) (py_lower ''Ongoing management plan'')"
  proof (intro allI impI)
    fix j :: nat assume "j < 5"
    then have "j = 0 \<or> j = 1 \<or> j = 2 \<or> j = 3 \<or> j = 4" by (rule less_5_cases)
    moreover have "\<not> sublist (py_lower (fst (color_schemes ! 0))) (py_lower ''Ongoing management plan'')"
      by (simp add: color_key_nth color_schemes_length color_keys string_eval)
    moreover have "\<not> sublist (py_lower (fst (color_schemes ! 1))) (py_lower ''Ongoing management plan'')"
      by (simp add: color_key_nth color_schemes_length color_keys string_eval)
    moreover have "\<not> sublist (py_lower (fst (color_schemes ! 2))) (py_lower ''Ongoing management plan'')"
      by (simp add: color_key_nth color_schemes_length color_keys string_eval)
    moreover have "\<not> sublist (py_lower (fst (color_schemes ! 3))) (py_lower ''Ongoing management plan'')"
      by (simp add: color_key_nth color_schemes_length color_keys string_eval)
    moreover have "\<not> sublist (py_lower (fst (color_schemes ! 4))) (py_lower ''Ongoing management plan'')"
      by (simp add: color_key_nth color_schemes_length color_keys string_eval)
    ultimately show "\<not> sublist (py_lower (fst (color_schemes ! j))) (py_lower ''Ongoing management plan'')"
      by blast
  qed
  have 2: "''Ongoing management plan'' \<notin> fst ` set color_schemes \<and> 5 < length color_schemes
          \<and> sublist (py_lower (fst (color_schemes ! 5))) (py_lower ''Ongoing management plan'')
          \<and> (\<forall>j<5. \<not> sublist (py_lower (fst (color_schemes ! j))) (py_lower ''Ongoing management plan''))"
    using a b c by (simp add: color_schemes_length)
  have 3: "''Red'' \<notin> fst ` set color_schemes
        \<and> (\<forall>key\<in>fst ` set color_schemes. \<not> sublist (py_lower key) (py_lower ''Red''))"
    unfolding keys color_keys by (simp add: string_eval)
  show ?thesis
    using 1 2 3 get_section_colors_lookup [of "''Background''"]
      get_section_colors_lookup [of "''Ongoing management plan''"]
      get_section_colors_lookup [of "''Red''"]
    by blast
qed

section \<open>The category of a guideline\<close>

text \<open>A configuration to try the resolver on: one directorate mapped to a category, and one
  title listed under another category.\<close>

definition example_config :: categories_config where
  "example_config =
     \<lparr>directorate_mapping = Some [(''Medicine'', ''Medical'')],
      categories = Some [(''Surgical'', \<lparr>guidelines = Some [''Hernia repair'']\<rparr>)]\<rparr>"

lemmas category_eval =
  example_config_def mapping_of_def categories_of_def guidelines_of_def partial_match_def
  string_eval

text \<open>
  Claim C3, as stated, fails: when the directorate matches a mapping key only partially and
  the title is listed under a category, \<^verbatim>\<open>determine_category\<close> returns the category of the
  title list, where the order of the claim gives the category of the partial match.
\<close>

theorem determine_category_counterexample:
  "determine_category ''Hernia repair'' ''Medicine Dept'' example_config = ''Surgical''
   \<and> spec_category ''Hernia repair'' ''Medicine Dept'' example_config = ''Medical''"
  by (simp add: determine_category_def spec_category_def category_eval)

text \<open>
  Claim C3, amended. \<^verbatim>\<open>determine_category\<close> resolves in the order: (1) the directorate is
  not empty and is a key of the directorate mapping: the value of that key, whatever the
  title lists say; else (2) the first category, in the order of the configuration, whose
  guideline list has the title; else (3) the directorate is not empty and the first key of
  the mapping that matches it partially (either way round, ignoring case): the value of
  that key; else (4) \<^verbatim>\<open>Uncategorised\<close>.
\<close>

theorem determine_category_order:
  "(\<forall>v. directorate \<noteq> [] \<and> map_of (mapping_of config) directorate = Some v
        \<longrightarrow> determine_category guideline_title directorate config = v)
   \<and> (\<forall>i. (directorate = [] \<or> map_of (mapping_of config) directorate = None)
          \<and> i < length (categories_of config)
          \<and> guideline_title \<in> set (guidelines_of (snd (categories_of config ! i)))
          \<and> (\<forall>j<i. guideline_title \<notin> set (guidelines_of (snd (categories_of config ! j))))
        \<longrightarrow> determine_category guideline_title directorate config
              = fst (categories_of config ! i))
   \<and> (\<forall>i. map_of (mapping_of config) directorate = None
          \<and> (\<forall>c\<in>set (categories_of config). guideline_title \<notin> set (guidelines_of (snd c)))
          \<and> directorate \<noteq> []
          \<and> i < length (mapping_of config)
          \<and> partial_match directorate (fst (mapping_of config ! i))
          \<and> (\<forall>j<i. \<not> partial_match directorate (fst (mapping_of config ! j)))
        \<longrightarrow> determine_category guideline_title directorate config
              = snd (mapping_of config ! i))
   \<and> ((directorate = [] \<or> map_of (mapping_of config) directorate = None)
        \<and> (\<forall>c\<in>set (categories_of config). guideline_title \<notin> set (guidelines_of (snd c)))
        \<and> (directorate = []
             \<or> (\<forall>kv\<in>set (mapping_of config). \<not> partial_match directorate (fst kv)))
        \<longrightarrow> determine_category guideline_title directorate config = ''Uncategorised'')"
proof (intro conjI allI impI)
  fix v
  assume "directorate \<noteq> [] \<and> map_of (mapping_of config) directorate = Some v"
  then show "determine_category guideline_title directorate config = v"
    by (simp add: determine_category_def)
next
  fix i
  assume a: "(directorate = [] \<or> map_of (mapping_of config) directorate = None)
          \<and> i < length (categories_of config)
          \<and> guideline_title \<in> set (guidelines_of (snd (categories_of config ! i)))
          \<and> (\<forall>j<i. guideline_title \<notin> set (guidelines_of (snd (categories_of config ! j))))"
  have "find (\<lambda>(category, info). guideline_title \<in> set (guidelines_of info)) (categories_of config)
        = Some (categories_of config ! i)"
    using a by (intro find_first) (auto simp: case_prod_beta)
  then show "determine_category guideline_title directorate config = fst (categories_of config ! i)"
    using a by (auto simp: determine_category_def case_prod_beta)
next
  fix i
  assume a: "map_of (mapping_of config) directorate = None
          \<and> (\<forall>c\<in>set (categories_of config). guideline_title \<notin> set (guidelines_of (snd c)))
          \<and> directorate \<noteq> []
          \<and> i < length (mapping_of config)
          \<and> partial_match directorate (fst (mapping_of config ! i))
          \<and> (\<forall>j<i. \<not> partial_match directorate (fst (mapping_of config ! j)))"
  have t: "find (\<lambda>(category, info). guideline_title \<in> set (guidelines_of info)) (categories_of config) = None"
    using a by (intro find_none) auto
  have "find (\<lambda>(key, v). partial_match directorate key) (mapping_of config) = Some (mapping_of config ! i)"
    using a by (intro find_first) (auto simp: case_prod_beta)
  then show "determine_category guideline_title directorate config = snd (mapping_of config ! i)"
    using a t by (simp add: determine_category_def case_prod_beta)
next
  assume a: "(directorate = [] \<or> map_of (mapping_of config) directorate = None)
        \<and> (\<forall>c\<in>set (categories_of config). guideline_title \<notin> set (guidelines_of (snd c)))
        \<and> (directorate = []
             \<or> (\<forall>kv\<in>set (mapping_of config). \<not> partial_match directorate (fst kv)))"
  have t: "find (\<lambda>(category, info). guideline_title \<in> set (guidelines_of info)) (categories_of config) = None"
    using a by (intro find_none) auto
  have "directorate \<noteq> [] \<Longrightarrow>
        find (\<lambda>(key, v). partial_match directorate key) (mapping_of config) = None"
    using a by (intro find_none) auto
  then show "determine_category guideline_title directorate config = ''Uncategorised''"
    using a t by (auto simp: determine_category_def)
qed

theorem determine_category_order_witness:
  "determine_category ''Hernia repair'' ''Medicine'' example_config = ''Medical''
   \<and> determine_category ''Hernia repair'' ''Medicine Dept'' example_config = ''Surgical''
   \<and> determine_category ''Asthma'' ''Medicine Dept'' example_config = ''Medical''
   \<and> determine_category ''Asthma'' ''Paediatrics'' example_config = ''Uncategorised''"
proof -
  have 1: "''Medicine'' \<noteq> [] \<and> map_of (mapping_of example_config) ''Medicine'' = Some ''Medical''"
    by (simp add: category_eval)
  have 2: "(''Medicine Dept'' = [] \<or> map_of (mapping_of example_config) ''Medicine Dept'' = None)
          \<and> 0 < length (categories_of example_config)
          \<and> ''Hernia repair'' \<in> set (guidelines_of (snd (categories_of example_config ! 0)))
          \<and> (\<forall>j<0. ''Hernia repair'' \<notin> set (guidelines_of (snd (categories_of example_config ! j))))"
    by (simp add: category_eval)
  have 3: "map_of (mapping_of example_config) ''Medicine Dept'' = None
          \<and> (\<forall>c\<in>set (categories_of example_config). ''Asthma'' \<notin> set (guidelines_of (snd c)))
          \<and> ''Medicine Dept'' \<noteq> []
          \<and> 0 < length (mapping_of example_config)
          \<and> partial_match ''Medicine Dept'' (fst (mapping_of example_config ! 0))
          \<and> (\<forall>j<0. \<not> partial_match ''Medicine Dept'' (fst (mapping_of example_config ! j)))"
    by (simp add: category_eval)
  have 4: "(''Paediatrics'' = [] \<or> map_of (mapping_of example_config) ''Paediatrics'' = None)
        \<and> (\<forall>c\<in>set (categories_of example_config). ''Asthma'' \<notin> set (guidelines_of (snd c)))
        \<and> (''Paediatrics'' = []
             \<or> (\<forall>kv\<in>set (mapping_of example_config). \<not> partial_match ''Paediatrics'' (fst kv)))"
    by (simp add: category_eval)
  have r: "fst (categories_of example_config ! 0) = ''Surgical''"
    "snd (mapping_of example_config ! 0) = ''Medical''"
    by (simp_all add: category_eval)
  have a: "determine_category ''Hernia repair'' ''Medicine'' example_config = ''Medical''"
    by (rule determine_category_order [THEN conjunct1, rule_format, OF 1])
  have b: "determine_category ''Hernia repair'' ''Medicine Dept'' example_config
           = fst (categories_of example_config ! 0)"
    by (rule determine_category_order [THEN conjunct2, THEN conjunct1, rule_format, OF 2])
  have c: "determine_category ''Asthma'' ''Medicine Dept'' example_config
           = snd (mapping_of example_config ! 0)"
    by (rule determine_category_order
          [THEN conjunct2, THEN conjunct2, THEN conjunct1, rule_format, OF 3])
  have d: "determine_category ''Asthma'' ''Paediatrics'' example_config = ''Uncategorised''"
    by (rule determine_category_order
          [THEN conjunct2, THEN conjunct2, THEN conjunct2, rule_format, OF 4])
  show ?thesis
    using a b c d r by simp
qed

section \<open>The exit status of a build\<close>

text \<open>An environment in which everything works: one document, processed, no static asset
  present, a list of names as \<^verbatim>\<open>category_order\<close>.\<close>

definition good_env :: build_env where
  "good_env =
     \<lparr>setup_raises = False,
      categories_json =
        Some \<lparr>directorate_mapping = Some [(''Medicine'', ''Medical'')],
              categories = Some [(''Medical'', \<lparr>guidelines = Some []\<rparr>)],
              category_order = OrderList [Name ''Medical'']\<rparr>,
      listing_raises = False,
      docx_files =
        [Processed \<lparr>title = ''Sepsis'', filename = ''Sepsis.docx'', category = ''Medical''\<rparr>],
      error_message_raises = False,
      regroup_raises = False,
      template_html = Some ''<html></html>'',
      write_raises = False,
      static_files = [Absent, Absent, Absent, Absent, Absent],
      report_raises = False,
      flush_fails = False\<rparr>"

text \<open>The same with a first static asset whose copy raises; with no document and a console
  that cannot be flushed; and with \<^verbatim>\<open>null\<close> as \<^verbatim>\<open>category_order\<close>.\<close>

definition copy_fails_env :: build_env where
  "copy_fails_env = good_env\<lparr>static_files := [CopyRaises, Absent, Absent, Absent, Absent]\<rparr>"

definition no_docs_no_flush_env :: build_env where
  "no_docs_no_flush_env = good_env\<lparr>docx_files := [], flush_fails := True\<rparr>"

definition null_order_env :: build_env where
  "null_order_env =
     good_env\<lparr>categories_json :=
        Some \<lparr>directorate_mapping = Some [(''Medicine'', ''Medical'')],
              categories = Some [(''Medical'', \<lparr>guidelines = Some []\<rparr>)],
              category_order = NotIterable\<rparr>\<rparr>"

text \<open>Something raises after \<^verbatim>\<open>dist/index.html\<close> is written: a copy, a statement of the
  report, or the loop over \<^verbatim>\<open>category_order\<close>.\<close>

definition raises_after_write :: "build_env \<Rightarrow> bool" where
  "raises_after_write env =
     (CopyRaises \<in> set (static_files env) \<or> report_raises env
      \<or> (case categories_json env of
            None \<Rightarrow> False
          | Some categories_config \<Rightarrow> order_raises (category_order categories_config)))"

lemmas build_eval =
  build_app_def exit_status_def good_env_def copy_fails_env_def no_docs_no_flush_env_def
  null_order_env_def processed_def raises_after_write_def

lemma page_written_cases:
  "page_written (build_app env) \<longleftrightarrow>
     \<not> setup_raises env \<and> categories_json env \<noteq> None \<and> \<not> listing_raises env
     \<and> docx_files env \<noteq> [] \<and> DocRaises \<notin> set (docx_files env) \<and> processed env \<noteq> []
     \<and> (\<forall>c. categories_json env = Some c \<longrightarrow> categories c \<noteq> None)
     \<and> \<not> regroup_raises env \<and> template_html env \<noteq> None \<and> \<not> write_raises env"
  by (auto simp: build_app_def split: option.splits)

lemma build_app_cases:
  "ending (build_app env) = Returned True \<longleftrightarrow>
     page_written (build_app env) \<and> \<not> raises_after_write env"
  unfolding page_written_cases
  by (auto simp: build_app_def raises_after_write_def split: option.splits)

lemma raised_after_write:
  "page_written (build_app env) \<Longrightarrow>
   ending (build_app env) = Raised \<longleftrightarrow> raises_after_write env"
  by (auto simp: build_app_def raises_after_write_def split: option.splits if_splits)

lemma returned_false_cases:
  "ending (build_app env) = Returned False \<Longrightarrow> docx_files env = [] \<or> processed env = []"
  by (auto simp: build_app_def split: option.splits if_splits)

lemma no_documents:
  "docx_files env = [] \<or> processed env = [] \<Longrightarrow> ending (build_app env) \<noteq> Returned True"
  by (auto simp: build_app_def processed_def split: option.splits if_splits)

lemma exit_argument_zero: "exit_argument e = 0 \<longleftrightarrow> e = Returned True"
  by (cases e) auto

lemma exit_argument_one: "e \<noteq> Returned True \<Longrightarrow> exit_argument e = 1"
  by (cases e) auto

text \<open>
  Claim C8, as stated, fails. With a document found and processed and \<^verbatim>\<open>dist/index.html\<close>
  written, the run ends with status 1 when copying a static asset raises, and also when
  \<^verbatim>\<open>category_order\<close> is \<^verbatim>\<open>null\<close>: nothing catches the exception. With no document found,
  the run ends with status 120, not 1, when the console cannot be flushed.
\<close>

theorem build_app_exit_counterexample:
  "docx_files copy_fails_env \<noteq> [] \<and> processed copy_fails_env \<noteq> []
   \<and> page_written (build_app copy_fails_env)
   \<and> exit_status copy_fails_env = 1
   \<and> docx_files null_order_env \<noteq> [] \<and> processed null_order_env \<noteq> []
   \<and> page_written (build_app null_order_env)
   \<and> exit_status null_order_env = 1
   \<and> docx_files no_docs_no_flush_env = []
   \<and> exit_status no_docs_no_flush_env = 120"
  by (simp add: build_eval)

text \<open>
  Claim C8, amended. The run ends with status 0 if and only if at least one document is
  found, at least one document is processed, \<^verbatim>\<open>dist/index.html\<close> is written, no exception
  leaves \<^verbatim>\<open>build_app\<close> and the interpreter can flush the console when it shuts down. Once
  the page is written, an exception leaves \<^verbatim>\<open>build_app\<close> exactly when a copy of a static
  asset, a statement of the report or the loop over \<^verbatim>\<open>category_order\<close> raises. When no
  document is found or no document is processed, the status is not 0: it is 1, or 120 when
  the console cannot be flushed.
\<close>

theorem build_app_exit_status:
  "(exit_status env = 0 \<longleftrightarrow>
      docx_files env \<noteq> [] \<and> processed env \<noteq> [] \<and> page_written (build_app env)
      \<and> ending (build_app env) \<noteq> Raised \<and> \<not> flush_fails env)
   \<and> (page_written (build_app env) \<longrightarrow>
        (ending (build_app env) = Raised \<longleftrightarrow> raises_after_write env))
   \<and> (docx_files env = [] \<or> processed env = []
        \<longrightarrow> exit_status env = (if flush_fails env then 120 else 1))"
proof (intro conjI impI)
  show "exit_status env = 0 \<longleftrightarrow>
      docx_files env \<noteq> [] \<and> processed env \<noteq> [] \<and> page_written (build_app env)
      \<and> ending (build_app env) \<noteq> Raised \<and> \<not> flush_fails env"
  proof
    assume "exit_status env = 0"
    then have f: "\<not> flush_fails env" and t: "ending (build_app env) = Returned True"
      by (auto simp: exit_status_def exit_argument_zero split: if_splits)
    have "page_written (build_app env)"
      using t by (simp add: build_app_cases)
    then have "docx_files env \<noteq> [] \<and> processed env \<noteq> []"
      by (simp add: page_written_cases)
    then show "docx_files env \<noteq> [] \<and> processed env \<noteq> [] \<and> page_written (build_app env)
      \<and> ending (build_app env) \<noteq> Raised \<and> \<not> flush_fails env"
      using f t \<open>page_written (build_app env)\<close> by simp
  next
    assume a: "docx_files env \<noteq> [] \<and> processed env \<noteq> [] \<and> page_written (build_app env)
      \<and> ending (build_app env) \<noteq> Raised \<and> \<not> flush_fails env"
    then have "ending (build_app env) \<noteq> Returned False"
      using returned_false_cases by blast
    then have "ending (build_app env) = Returned True"
      using a by (cases "ending (build_app env)") auto
    then show "exit_status env = 0"
      using a by (simp add: exit_status_def)
  qed
next
  assume "page_written (build_app env)"
  then show "ending (build_app env) = Raised \<longleftrightarrow> raises_after_write env"
    by (rule raised_after_write)
next
  assume "docx_files env = [] \<or> processed env = []"
  then have "ending (build_app env) \<noteq> Returned True"
    by (rule no_documents)
  then have "exit_argument (ending (build_app env)) = 1"
    by (rule exit_argument_one)
  then show "exit_status env = (if flush_fails env then 120 else 1)"
    by (simp add: exit_status_def)
qed

theorem build_app_exit_status_witness:
  "exit_status good_env = 0
   \<and> ending (build_app copy_fails_env) = Raised
   \<and> exit_status (good_env\<lparr>docx_files := [Skipped, Skipped]\<rparr>) = 1
   \<and> exit_status no_docs_no_flush_env = 120"
proof -
  have 1: "docx_files good_env \<noteq> [] \<and> processed good_env \<noteq> []
      \<and> page_written (build_app good_env)
      \<and> ending (build_app good_env) \<noteq> Raised \<and> \<not> flush_fails good_env"
    by (simp add: build_eval)
  have 2: "page_written (build_app copy_fails_env)"
    by (simp add: build_eval)
  have r: "raises_after_write copy_fails_env"
    by (simp add: build_eval)
  have 3: "docx_files (good_env\<lparr>docx_files := [Skipped, Skipped]\<rparr>) = []
           \<or> processed (good_env\<lparr>docx_files := [Skipped, Skipped]\<rparr>) = []"
    by (simp add: build_eval)
  have 4: "docx_files no_docs_no_flush_env = [] \<or> processed no_docs_no_flush_env = []"
    by (simp add: build_eval)
  have f: "\<not> flush_fails (good_env\<lparr>docx_files := [Skipped, Skipped]\<rparr>)"
    "flush_fails no_docs_no_flush_env"
    by (simp_all add: build_eval)
  have a: "exit_status good_env = 0"
    using 1 build_app_exit_status [of good_env, THEN conjunct1] by blast
  have b: "ending (build_app copy_fails_env) = Raised"
    using r build_app_exit_status
            [of copy_fails_env, THEN conjunct2, THEN conjunct1, rule_format, OF 2]
    by blast
  have c: "exit_status (good_env\<lparr>docx_files := [Skipped, Skipped]\<rparr>) = 1"
    using f(1) build_app_exit_status
            [of "good_env\<lparr>docx_files := [Skipped, Skipped]\<rparr>", THEN conjunct2, THEN conjunct2,
             rule_format, OF 3]
    by simp
  have d: "exit_status no_docs_no_flush_env = 120"
    using f(2) build_app_exit_status
            [of no_docs_no_flush_env, THEN conjunct2, THEN conjunct2, rule_format, OF 4]
    by simp
  show ?thesis using a b c d by simp
qed

section \<open>Lines and the markup made from them\<close>

text \<open>The lines the loop has to deal with: stripped, blank ones left out.\<close>

definition nonblank :: "string list \<Rightarrow> string list" where
  "nonblank lines = filter (\<lambda>line. line \<noteq> []) (map strip lines)"

text \<open>The result without the brackets of the lists: the entries made from a line.\<close>

definition bracket :: "string \<Rightarrow> bool" where
  "bracket s = (s = ''<ul>'' \<or> s = ''</ul>'')"

definition line_markup :: "string list \<Rightarrow> string list" where
  "line_markup result = filter (\<lambda>s. \<not> bracket s) result"

text \<open>An entry of the result is the markup of a line, in one of the six forms.\<close>

definition renders :: "string \<Rightarrow> string \<Rightarrow> bool" where
  "renders out line =
     (out = h3 line \<or> out = h4 line \<or> out = li line \<or> out = strong line \<or> out = p line
      \<or> (case numbered_pattern line of
            Some (num, text_part) \<Rightarrow> out = numbered num text_part
          | None \<Rightarrow> False))"

text \<open>What the rule order adds: a short line with an H3 pattern is a heading, and the
  emphasis of the bold rule is only given to a directive or a line ending in a colon.\<close>

definition emitted :: "string \<Rightarrow> string \<Rightarrow> bool" where
  "emitted out line =
     (renders out line
      \<and> (length line < 80 \<and> matches_pattern_list line h3_patterns \<longrightarrow> out = h3 line)
      \<and> (out = strong line \<longrightarrow> bold_match line \<or> suffix '':'' line))"

lemma nonblank_Nil [simp]: "nonblank [] = []"
  by (simp add: nonblank_def)

lemma nonblank_Cons:
  "nonblank (l # ls) = (if strip l = [] then nonblank ls else strip l # nonblank ls)"
  by (simp add: nonblank_def)

lemma drop_cursor: "i < length lines \<Longrightarrow> drop i lines = lines ! i # drop (Suc i) lines"
  by (simp add: Cons_nth_drop_Suc)

lemma nonblank_drop_blank:
  "i < length lines \<Longrightarrow> strip (lines ! i) = [] \<Longrightarrow>
   nonblank (drop i lines) = nonblank (drop (Suc i) lines)"
  by (simp add: drop_cursor nonblank_Cons)

lemma nonblank_drop_line:
  "i < length lines \<Longrightarrow> strip (lines ! i) \<noteq> [] \<Longrightarrow>
   nonblank (drop i lines) = strip (lines ! i) # nonblank (drop (Suc i) lines)"
  by (simp add: drop_cursor nonblank_Cons)

lemma not_bracket [simp]:
  "\<not> bracket (h3 l)" "\<not> bracket (h4 l)" "\<not> bracket (li l)" "\<not> bracket (strong l)"
  "\<not> bracket (p l)" "\<not> bracket (numbered n t)"
  by (simp_all add: bracket_def markup_eval)

lemma line_markup_ul [simp]: "line_markup (ul items) = map li items"
  by (simp add: line_markup_def ul_def bracket_def filter_id_conv del: not_bracket)
     (use not_bracket(3) in \<open>auto simp: bracket_def\<close>)

lemma line_markup_simps [simp]:
  "line_markup [] = []"
  "line_markup (a @ b) = line_markup a @ line_markup b"
  "\<not> bracket s \<Longrightarrow> line_markup (s # r) = s # line_markup r"
  by (simp_all add: line_markup_def)

lemma strong_other [simp]:
  "h3 l \<noteq> strong l" "h4 l \<noteq> strong l" "li l \<noteq> strong l" "p l \<noteq> strong l"
  "numbered n t \<noteq> strong l"
  by (simp_all add: markup_eval)

text \<open>The inner loops, one pass at a time.\<close>

lemma collect_sub_end:
  "\<not> i < length lines \<Longrightarrow> collect_sub lines i sub_items = (i, sub_items)"
  by (subst collect_sub.simps) simp

lemma collect_sub_blank:
  "i < length lines \<Longrightarrow> strip (lines ! i) = [] \<Longrightarrow>
   collect_sub lines i sub_items = collect_sub lines (i + 1) sub_items"
  by (subst collect_sub.simps) simp

lemma collect_sub_stop:
  "i < length lines \<Longrightarrow> strip (lines ! i) \<noteq> [] \<Longrightarrow>
   numbered_pattern (strip (lines ! i)) \<noteq> None
   \<or> matches_pattern_list (strip (lines ! i)) h3_patterns
   \<or> matches_pattern_list (strip (lines ! i)) h4_patterns
   \<or> bold_match (strip (lines ! i)) \<Longrightarrow>
   collect_sub lines i sub_items = (i, sub_items)"
  by (subst collect_sub.simps) (auto simp: Let_def)

lemma collect_sub_take:
  "i < length lines \<Longrightarrow> strip (lines ! i) \<noteq> [] \<Longrightarrow>
   numbered_pattern (strip (lines ! i)) = None \<Longrightarrow>
   \<not> matches_pattern_list (strip (lines ! i)) h3_patterns \<Longrightarrow>
   \<not> matches_pattern_list (strip (lines ! i)) h4_patterns \<Longrightarrow>
   \<not> bold_match (strip (lines ! i)) \<Longrightarrow>
   collect_sub lines i sub_items = collect_sub lines (i + 1) (sub_items @ [strip (lines ! i)])"
  by (subst collect_sub.simps) (simp add: Let_def)

lemma collect_list_end:
  "\<not> j < length lines \<Longrightarrow> collect_list lines j list_items = (j, list_items)"
  by (subst collect_list.simps) simp

lemma collect_list_blank:
  "j < length lines \<Longrightarrow> strip (lines ! j) = [] \<Longrightarrow>
   collect_list lines j list_items = collect_list lines (j + 1) list_items"
  by (subst collect_list.simps) simp

lemma collect_list_stop:
  "j < length lines \<Longrightarrow> strip (lines ! j) \<noteq> [] \<Longrightarrow>
   numbered_pattern (strip (lines ! j)) \<noteq> None
   \<or> matches_pattern_list (strip (lines ! j)) h3_patterns
   \<or> matches_pattern_list (strip (lines ! j)) h4_patterns
   \<or> \<not> (length (strip (lines ! j)) < 100 \<and> length (strip (lines ! j)) > 3) \<Longrightarrow>
   collect_list lines j list_items = (j, list_items)"
  by (subst collect_list.simps) (auto simp: Let_def)

lemma collect_list_take:
  "j < length lines \<Longrightarrow> strip (lines ! j) \<noteq> [] \<Longrightarrow>
   numbered_pattern (strip (lines ! j)) = None \<Longrightarrow>
   \<not> matches_pattern_list (strip (lines ! j)) h3_patterns \<Longrightarrow>
   \<not> matches_pattern_list (strip (lines ! j)) h4_patterns \<Longrightarrow>
   length (strip (lines ! j)) < 100 \<Longrightarrow> length (strip (lines ! j)) > 3 \<Longrightarrow>
   collect_list lines j list_items = collect_list lines (j + 1) (list_items @ [strip (lines ! j)])"
  by (subst collect_list.simps) (simp add: Let_def)

text \<open>What the two inner loops collect, said on the lines still ahead.\<close>

definition sub_item :: "string \<Rightarrow> bool" where
  "sub_item s =
     (numbered_pattern s = None \<and> \<not> matches_pattern_list s h3_patterns
      \<and> \<not> matches_pattern_list s h4_patterns \<and> \<not> bold_match s)"

definition list_item :: "string \<Rightarrow> bool" where
  "list_item s =
     (numbered_pattern s = None \<and> \<not> matches_pattern_list s h3_patterns
      \<and> \<not> matches_pattern_list s h4_patterns \<and> length s < 100 \<and> length s > 3)"

lemma collect_sub_items:
  "\<exists>items. snd (collect_sub lines i sub_items) = sub_items @ items
     \<and> nonblank (drop i lines) = items @ nonblank (drop (fst (collect_sub lines i sub_items)) lines)
     \<and> list_all sub_item items"
proof (induction lines i sub_items rule: collect_sub.induct)
  case (1 lines i sub_items)
  let ?sub = "strip (lines ! i)"
  consider (finished) "\<not> i < length lines"
    | (blank) "i < length lines" "?sub = []"
    | (stop) "i < length lines" "?sub \<noteq> []" "\<not> sub_item ?sub"
    | (take) "i < length lines" "?sub \<noteq> []" "sub_item ?sub"
    by blast
  then show ?case
  proof cases
    case finished
    then show ?thesis by (simp add: collect_sub_end)
  next
    case blank
    from "1.IH"(1) [OF blank(1) refl blank(2)]
    obtain items where
      "snd (collect_sub lines (i + 1) sub_items) = sub_items @ items"
      "nonblank (drop (i + 1) lines)
         = items @ nonblank (drop (fst (collect_sub lines (i + 1) sub_items)) lines)"
      "list_all sub_item items"
      by blast
    then show ?thesis
      using blank by (auto simp: collect_sub_blank nonblank_drop_blank)
  next
    case stop
    then have "collect_sub lines i sub_items = (i, sub_items)"
      by (intro collect_sub_stop) (auto simp: sub_item_def)
    then show ?thesis by simp
  next
    case take
    then have c: "numbered_pattern ?sub = None" "\<not> matches_pattern_list ?sub h3_patterns"
      "\<not> matches_pattern_list ?sub h4_patterns" "\<not> bold_match ?sub"
      by (auto simp: sub_item_def)
    have n: "\<not> numbered_pattern ?sub \<noteq> None" using c by simp
    have h: "\<not> (matches_pattern_list ?sub h3_patterns \<or> matches_pattern_list ?sub h4_patterns)"
      using c by simp
    from "1.IH"(2) [OF take(1) refl take(2) n h c(4)]
    obtain items where it:
      "snd (collect_sub lines (i + 1) (sub_items @ [?sub])) = (sub_items @ [?sub]) @ items"
      "nonblank (drop (i + 1) lines)
         = items @ nonblank (drop (fst (collect_sub lines (i + 1) (sub_items @ [?sub]))) lines)"
      "list_all sub_item items"
      by blast
    have eq: "collect_sub lines i sub_items = collect_sub lines (i + 1) (sub_items @ [?sub])"
      using take c by (intro collect_sub_take)
    show ?thesis
      apply (rule exI [of _ "?sub # items"])
      using it take by (simp add: eq nonblank_drop_line)
  qed
qed

lemma collect_list_items:
  "\<exists>items. snd (collect_list lines j list_items) = list_items @ items
     \<and> nonblank (drop j lines) = items @ nonblank (drop (fst (collect_list lines j list_items)) lines)
     \<and> list_all list_item items"
proof (induction lines j list_items rule: collect_list.induct)
  case (1 lines j list_items)
  let ?nxt = "strip (lines ! j)"
  consider (finished) "\<not> j < length lines"
    | (blank) "j < length lines" "?nxt = []"
    | (stop) "j < length lines" "?nxt \<noteq> []" "\<not> list_item ?nxt"
    | (take) "j < length lines" "?nxt \<noteq> []" "list_item ?nxt"
    by blast
  then show ?case
  proof cases
    case finished
    then show ?thesis by (simp add: collect_list_end)
  next
    case blank
    from "1.IH"(1) [OF blank(1) refl blank(2)]
    obtain items where
      "snd (collect_list lines (j + 1) list_items) = list_items @ items"
      "nonblank (drop (j + 1) lines)
         = items @ nonblank (drop (fst (collect_list lines (j + 1) list_items)) lines)"
      "list_all list_item items"
      by blast
    then show ?thesis
      using blank by (auto simp: collect_list_blank nonblank_drop_blank)
  next
    case stop
    then have "collect_list lines j list_items = (j, list_items)"
      by (intro collect_list_stop) (auto simp: list_item_def)
    then show ?thesis by simp
  next
    case take
    then have c: "numbered_pattern ?nxt = None" "\<not> matches_pattern_list ?nxt h3_patterns"
      "\<not> matches_pattern_list ?nxt h4_patterns" "length ?nxt < 100" "length ?nxt > 3"
      by (auto simp: list_item_def)
    have n: "\<not> numbered_pattern ?nxt \<noteq> None" using c by simp
    have h: "\<not> (matches_pattern_list ?nxt h3_patterns \<or> matches_pattern_list ?nxt h4_patterns)"
      using c by simp
    have l: "length ?nxt < 100 \<and> length ?nxt > 3" using c by simp
    from "1.IH"(2) [OF take(1) refl take(2) n h l]
    obtain items where it:
      "snd (collect_list lines (j + 1) (list_items @ [?nxt])) = (list_items @ [?nxt]) @ items"
      "nonblank (drop (j + 1) lines)
         = items @ nonblank (drop (fst (collect_list lines (j + 1) (list_items @ [?nxt]))) lines)"
      "list_all list_item items"
      by blast
    have eq: "collect_list lines j list_items = collect_list lines (j + 1) (list_items @ [?nxt])"
      using take c by (intro collect_list_take)
    show ?thesis
      apply (rule exI [of _ "?nxt # items"])
      using it take by (simp add: eq nonblank_drop_line)
  qed
qed


text \<open>One pass of the main loop, rule by rule.\<close>

lemma step_h3:
  "strip (lines ! i) \<noteq> [] \<Longrightarrow> length (strip (lines ! i)) < 80 \<Longrightarrow>
   matches_pattern_list (strip (lines ! i)) h3_patterns \<Longrightarrow>
   step lines i = (i + 1, [h3 (strip (lines ! i))])"
  by (simp add: step_def)

lemma step_h4:
  "strip (lines ! i) \<noteq> [] \<Longrightarrow>
   \<not> (length (strip (lines ! i)) < 80 \<and> matches_pattern_list (strip (lines ! i)) h3_patterns) \<Longrightarrow>
   length (strip (lines ! i)) < 80 \<Longrightarrow>
   matches_pattern_list (strip (lines ! i)) h4_patterns \<Longrightarrow>
   step lines i = (i + 1, [h4 (strip (lines ! i))])"
  by (auto simp: step_def)

text \<open>No heading by pattern: the first two rules do not fire.\<close>

definition no_heading :: "string \<Rightarrow> bool" where
  "no_heading line =
     (line \<noteq> []
      \<and> \<not> (length line < 80 \<and> matches_pattern_list line h3_patterns)
      \<and> \<not> (length line < 80 \<and> matches_pattern_list line h4_patterns))"

lemma step_short:
  "no_heading (strip (lines ! i)) \<Longrightarrow> short_before_long lines i (strip (lines ! i)) \<Longrightarrow>
   step lines i = (i + 1, [h3 (strip (lines ! i))])"
  by (auto simp: step_def Let_def no_heading_def)

lemma step_numbered:
  "no_heading (strip (lines ! i)) \<Longrightarrow> \<not> short_before_long lines i (strip (lines ! i)) \<Longrightarrow>
   numbered_pattern (strip (lines ! i)) = Some (num, text_part) \<Longrightarrow>
   step lines i =
     (fst (collect_sub lines (i + 1) []),
      numbered num text_part #
        (if snd (collect_sub lines (i + 1) []) \<noteq> [] then ul (snd (collect_sub lines (i + 1) []))
         else []))"
  by (auto simp: step_def Let_def no_heading_def case_prod_beta)

text \<open>The bullet rule is reached: no heading of either kind and no numbered line.\<close>

definition at_bullet_rule :: "string list \<Rightarrow> nat \<Rightarrow> bool" where
  "at_bullet_rule lines i =
     (no_heading (strip (lines ! i)) \<and> \<not> short_before_long lines i (strip (lines ! i))
      \<and> numbered_pattern (strip (lines ! i)) = None)"

text \<open>The bullet rule fires: at least three lines collected.\<close>

definition bullet_fires :: "string list \<Rightarrow> nat \<Rightarrow> bool" where
  "bullet_fires lines i =
     (length (strip (lines ! i)) < 100 \<and> length (strip (lines ! i)) > 3
      \<and> length (snd (collect_list lines (i + 1) [strip (lines ! i)])) \<ge> 3)"

lemma step_bullet:
  "at_bullet_rule lines i \<Longrightarrow> bullet_fires lines i \<Longrightarrow>
   step lines i =
     (fst (collect_list lines (i + 1) [strip (lines ! i)]),
      ul (snd (collect_list lines (i + 1) [strip (lines ! i)])))"
  by (auto simp: step_def Let_def no_heading_def at_bullet_rule_def bullet_fires_def case_prod_beta)

lemma step_bold:
  "at_bullet_rule lines i \<Longrightarrow> \<not> bullet_fires lines i \<Longrightarrow>
   bold_match (strip (lines ! i)) \<or> suffix '':'' (strip (lines ! i)) \<Longrightarrow>
   step lines i = (i + 1, [strong (strip (lines ! i))])"
  by (auto simp: step_def Let_def no_heading_def at_bullet_rule_def bullet_fires_def)

lemma step_paragraph:
  "at_bullet_rule lines i \<Longrightarrow> \<not> bullet_fires lines i \<Longrightarrow>
   \<not> bold_match (strip (lines ! i)) \<Longrightarrow> \<not> suffix '':'' (strip (lines ! i)) \<Longrightarrow>
   step lines i = (i + 1, [p (strip (lines ! i))])"
  by (auto simp: step_def Let_def no_heading_def at_bullet_rule_def bullet_fires_def)

text \<open>The items of a list, each wrapped, stand for themselves.\<close>

lemma emitted_sub_items: "list_all sub_item items \<Longrightarrow> list_all2 emitted (map li items) items"
  by (induction items) (auto simp: emitted_def renders_def sub_item_def)

lemma emitted_list_items: "list_all list_item items \<Longrightarrow> list_all2 emitted (map li items) items"
  by (induction items) (auto simp: emitted_def renders_def list_item_def)

text \<open>Each pass turns the lines it moves over into their markup, one entry for a line.\<close>

lemma step_emits:
  assumes "i < length lines"
  shows "\<exists>items. nonblank (drop i lines) = items @ nonblank (drop (fst (step lines i)) lines)
           \<and> list_all2 emitted (line_markup (snd (step lines i))) items"
proof -
  let ?line = "strip (lines ! i)"
  have one: "list_all2 emitted [out] [?line] \<Longrightarrow> ?line \<noteq> [] \<Longrightarrow> \<not> bracket out \<Longrightarrow>
             step lines i = (i + 1, [out]) \<Longrightarrow> ?thesis" for out
    using assms by (intro exI [of _ "[?line]"]) (simp add: nonblank_drop_line)
  consider (blank) "?line = []"
    | (h3) "?line \<noteq> []" "length ?line < 80" "matches_pattern_list ?line h3_patterns"
    | (h4) "?line \<noteq> []" "\<not> (length ?line < 80 \<and> matches_pattern_list ?line h3_patterns)"
        "length ?line < 80" "matches_pattern_list ?line h4_patterns"
    | (short) "no_heading ?line" "short_before_long lines i ?line"
    | (numbered) num text_part where "no_heading ?line" "\<not> short_before_long lines i ?line"
        "numbered_pattern ?line = Some (num, text_part)"
    | (bullet) "at_bullet_rule lines i" "bullet_fires lines i"
    | (bold) "at_bullet_rule lines i" "\<not> bullet_fires lines i"
        "bold_match ?line \<or> suffix '':'' ?line"
    | (plain) "at_bullet_rule lines i" "\<not> bullet_fires lines i"
        "\<not> bold_match ?line" "\<not> suffix '':'' ?line"
    unfolding no_heading_def at_bullet_rule_def by (cases "numbered_pattern ?line") auto
  then show ?thesis
  proof cases
    case blank
    then have "step lines i = (i + 1, [])" by (rule step_blank)
    then show ?thesis
      using assms blank by (intro exI [of _ "[]"]) (simp add: nonblank_drop_blank)
  next
    case h3
    show ?thesis
      by (rule one [OF _ h3(1) _ step_h3 [OF h3]]) (simp_all add: emitted_def renders_def)
  next
    case h4
    show ?thesis
      by (rule one [OF _ h4(1) _ step_h4 [OF h4]]) (use h4 in \<open>auto simp add: emitted_def renders_def\<close>)
  next
    case short
    show ?thesis
      by (rule one [OF _ _ _ step_short [OF short]])
         (use short in \<open>auto simp add: emitted_def renders_def no_heading_def\<close>)
  next
    case numbered
    obtain items where it:
      "snd (collect_sub lines (i + 1) []) = [] @ items"
      "nonblank (drop (i + 1) lines)
         = items @ nonblank (drop (fst (collect_sub lines (i + 1) [])) lines)"
      "list_all sub_item items"
      using collect_sub_items [of lines "i + 1" "[]"] by blast
    have line: "?line \<noteq> []" using numbered by (simp add: no_heading_def)
    have first: "emitted (numbered num text_part) ?line"
      using numbered by (auto simp: emitted_def renders_def no_heading_def)
    have "list_all2 emitted (numbered num text_part # map li items) (?line # items)"
      using first emitted_sub_items [OF it(3)] by simp
    moreover have "line_markup (snd (step lines i)) = numbered num text_part # map li items"
      using it(1) by (simp add: step_numbered [OF numbered])
    moreover have "nonblank (drop i lines)
        = (?line # items) @ nonblank (drop (fst (step lines i)) lines)"
      using assms line it(2) by (simp add: step_numbered [OF numbered] nonblank_drop_line)
    ultimately show ?thesis by metis
  next
    case bullet
    obtain items where it:
      "snd (collect_list lines (i + 1) [?line]) = [?line] @ items"
      "nonblank (drop (i + 1) lines)
         = items @ nonblank (drop (fst (collect_list lines (i + 1) [?line])) lines)"
      "list_all list_item items"
      using collect_list_items [of lines "i + 1" "[?line]"] by blast
    have line: "?line \<noteq> []" using bullet by (simp add: at_bullet_rule_def no_heading_def)
    have first: "emitted (li ?line) ?line"
      using bullet by (auto simp: emitted_def renders_def at_bullet_rule_def no_heading_def)
    have "list_all2 emitted (li ?line # map li items) (?line # items)"
      using first emitted_list_items [OF it(3)] by simp
    moreover have "line_markup (snd (step lines i)) = li ?line # map li items"
      using it(1) by (simp add: step_bullet [OF bullet])
    moreover have "nonblank (drop i lines)
        = (?line # items) @ nonblank (drop (fst (step lines i)) lines)"
      using assms line it(2) by (simp add: step_bullet [OF bullet] nonblank_drop_line)
    ultimately show ?thesis by metis
  next
    case bold
    show ?thesis
      by (rule one [OF _ _ _ step_bold [OF bold]])
         (use bold in \<open>auto simp add: emitted_def renders_def at_bullet_rule_def no_heading_def\<close>)
  next
    case plain
    show ?thesis
      by (rule one [OF _ _ _ step_paragraph [OF plain]])
         (use plain in \<open>auto simp add: emitted_def renders_def at_bullet_rule_def no_heading_def\<close>)
  qed
qed

text \<open>The accumulator only grows at its end.\<close>

lemma format_loop_acc: "format_loop lines i acc = acc @ format_loop lines i []"
proof (induction "length lines - i" arbitrary: i acc rule: less_induct)
  case less
  show ?case
  proof (cases "i < length lines")
    case False
    then show ?thesis by (subst (1 2) format_loop.simps) simp
  next
    case True
    let ?i = "fst (step lines i)" and ?out = "snd (step lines i)"
    have smaller: "length lines - ?i < length lines - i"
      using True step_cursor [of i lines] by arith
    have "format_loop lines i acc = format_loop lines ?i (acc @ ?out)"
      using True by (subst format_loop.simps) simp
    also have "\<dots> = (acc @ ?out) @ format_loop lines ?i []"
      by (rule less [OF smaller])
    also have "\<dots> = acc @ format_loop lines ?i ([] @ ?out)"
      using less [OF smaller, of ?out] by simp
    also have "\<dots> = acc @ format_loop lines i []"
      using True by (subst (2) format_loop.simps) simp
    finally show ?thesis .
  qed
qed

lemma format_loop_emits:
  "list_all2 emitted (line_markup (format_loop lines i [])) (nonblank (drop i lines))"
proof (induction "length lines - i" arbitrary: i rule: less_induct)
  case less
  show ?case
  proof (cases "i < length lines")
    case False
    then show ?thesis by (subst format_loop.simps) simp
  next
    case True
    let ?i = "fst (step lines i)" and ?out = "snd (step lines i)"
    have smaller: "length lines - ?i < length lines - i"
      using True step_cursor [of i lines] by arith
    obtain items where it:
      "nonblank (drop i lines) = items @ nonblank (drop ?i lines)"
      "list_all2 emitted (line_markup ?out) items"
      using step_emits [OF True] by blast
    have "format_loop lines i [] = format_loop lines ?i ([] @ ?out)"
      using True by (subst format_loop.simps) simp
    then have "format_loop lines i [] = ?out @ format_loop lines ?i []"
      using format_loop_acc [of lines ?i ?out] by simp
    then show ?thesis
      using it less [OF smaller] by (simp add: list_all2_appendI)
  qed
qed

section \<open>The segmenter consumes every line once\<close>

lemma collect_sub_bound:
  "i \<le> length lines \<Longrightarrow> fst (collect_sub lines i sub_items) \<le> length lines"
proof (induction lines i sub_items rule: collect_sub.induct)
  case (1 lines i sub_items)
  show ?case
    using "1.IH" "1.prems" by (subst collect_sub.simps) (auto simp: Let_def)
qed

lemma collect_list_bound:
  "j \<le> length lines \<Longrightarrow> fst (collect_list lines j list_items) \<le> length lines"
proof (induction lines j list_items rule: collect_list.induct)
  case (1 lines j list_items)
  show ?case
    using "1.IH" "1.prems" by (subst collect_list.simps) (auto simp: Let_def)
qed

lemma step_bound: "i < length lines \<Longrightarrow> fst (step lines i) \<le> length lines"
proof -
  assume i: "i < length lines"
  have a: "fst (collect_sub lines (i + 1) []) \<le> length lines"
    using i by (intro collect_sub_bound) simp
  have b: "fst (collect_list lines (i + 1) [strip (lines ! i)]) \<le> length lines"
    using i by (intro collect_list_bound) simp
  show ?thesis
    using a b i by (auto simp: step_def Let_def split: option.splits prod.splits)
qed

lemma emitted_renders: "emitted out line \<Longrightarrow> renders out line"
  by (simp add: emitted_def)

text \<open>
  Claim C1. For every input, the entries of \<^verbatim>\<open>result\<close> other than the list brackets are,
  one for one and in the same order, the markup of the non-blank lines of the input: no
  line is left out, none appears twice, and the order is kept. The loop terminates (it is a
  total function, by the measure \<open>length lines - i\<close>), and each pass through its body moves
  the cursor forward, never beyond the end of the lines.
\<close>

theorem segmenter_consumes_lines_once:
  "list_all2 renders (line_markup (format_result content)) (nonblank (py_split content))
   \<and> (\<forall>lines i. i < length lines \<longrightarrow>
         i < fst (step lines i) \<and> fst (step lines i) \<le> length lines)
   \<and> (\<forall>lines i result. length lines \<le> i \<longrightarrow> format_loop lines i result = result)"
proof (intro conjI allI impI)
  have "list_all2 emitted (line_markup (format_loop (py_split content) 0 []))
          (nonblank (drop 0 (py_split content)))"
    by (rule format_loop_emits)
  then have "list_all2 emitted (line_markup (format_result content)) (nonblank (py_split content))"
    by (simp add: format_result_def)
  then show "list_all2 renders (line_markup (format_result content)) (nonblank (py_split content))"
    by (rule list_all2_mono) (rule emitted_renders)
next
  fix lines :: "string list" and i
  assume "i < length lines"
  then show "i < fst (step lines i)" by (simp add: step_cursor)
next
  fix lines :: "string list" and i
  assume "i < length lines"
  then show "fst (step lines i) \<le> length lines" by (rule step_bound)
next
  fix lines :: "string list" and i :: nat and result :: "string list"
  assume "length lines \<le> i"
  then show "format_loop lines i result = result"
    by (subst format_loop.simps) simp
qed

text \<open>A text with a heading, a blank line, a numbered line with one sub-item, a directive
  and a plain line.\<close>

definition sample_text :: string where
  "sample_text = ''About sepsis\<newline>\<newline>1. Give oxygen\<newline>  High flow \<newline>Note: reassess\<newline>Plain words''"

lemma sample_lines:
  "py_split sample_text =
     [''About sepsis'', '''', ''1. Give oxygen'', ''  High flow '', ''Note: reassess'', ''Plain words'']"
  by (simp add: sample_text_def newline_def)

lemma sample_result:
  "format_result sample_text =
     [''<h3>About sepsis</h3>'', ''<p><strong>1. Give oxygen</strong></p>'', ''<ul>'',
      ''<li>High flow</li>'', ''</ul>'', ''<strong>Note: reassess</strong>'', ''<p>Plain words</p>'']"
  unfolding format_result_def sample_lines
  by (simp add: pattern_eval markup_eval loop_eval)

theorem segmenter_consumes_lines_once_witness:
  "list_all2 renders
     [''<h3>About sepsis</h3>'', ''<p><strong>1. Give oxygen</strong></p>'',
      ''<li>High flow</li>'', ''<strong>Note: reassess</strong>'', ''<p>Plain words</p>'']
     [''About sepsis'', ''1. Give oxygen'', ''High flow'', ''Note: reassess'', ''Plain words'']
   \<and> 2 < fst (step (py_split sample_text) 2) \<and> fst (step (py_split sample_text) 2) \<le> 6"
proof -
  have m: "line_markup (format_result sample_text) =
     [''<h3>About sepsis</h3>'', ''<p><strong>1. Give oxygen</strong></p>'',
      ''<li>High flow</li>'', ''<strong>Note: reassess</strong>'', ''<p>Plain words</p>'']"
    unfolding sample_result by (simp add: line_markup_def bracket_def)
  have n: "nonblank (py_split sample_text) =
     [''About sepsis'', ''1. Give oxygen'', ''High flow'', ''Note: reassess'', ''Plain words'']"
    unfolding sample_lines by (simp add: nonblank_def pattern_eval)
  have l: "2 < length (py_split sample_text)"
    unfolding sample_lines by simp
  have len: "length (py_split sample_text) = 6"
    unfolding sample_lines by simp
  have a: "list_all2 renders (line_markup (format_result sample_text))
             (nonblank (py_split sample_text))"
    by (rule segmenter_consumes_lines_once [THEN conjunct1])
  have b: "2 < fst (step (py_split sample_text) 2)
           \<and> fst (step (py_split sample_text) 2) \<le> length (py_split sample_text)"
    by (rule segmenter_consumes_lines_once [THEN conjunct2, THEN conjunct1, rule_format, OF l])
  show ?thesis
    using a b unfolding m n len by simp
qed

section \<open>Headings come before emphasis\<close>

lemma no_pattern_matches_empty:
  "\<not> matches_pattern_list [] h3_patterns" "\<not> matches_pattern_list [] h4_patterns"
  by (simp_all add: matches_pattern_list_def h3_patterns_def h4_patterns_def lits_def)

lemma emitted_h3:
  "emitted out line \<Longrightarrow> length line < 80 \<Longrightarrow> matches_pattern_list line h3_patterns \<Longrightarrow>
   out = h3 line"
  by (simp add: emitted_def)

lemma emitted_strong:
  "emitted out line \<Longrightarrow> \<not> bold_match line \<Longrightarrow> \<not> suffix '':'' line \<Longrightarrow> out \<noteq> strong line"
  by (auto simp: emitted_def)

lemma format_result_emits:
  "list_all2 emitted (line_markup (format_result content)) (nonblank (py_split content))"
  using format_loop_emits [of "py_split content" 0] by (simp add: format_result_def)

text \<open>
  Claim C4. A line shorter than 80 characters that matches an H3 pattern and ends with a
  colon is a heading: the pass of the loop that meets it appends \<^verbatim>\<open><h3>\<close> markup only, and in
  the result of any input the entry of such a line is its \<^verbatim>\<open><h3>\<close> markup, not its
  \<^verbatim>\<open><strong>\<close> markup.
\<close>

theorem heading_beats_bold:
  "(\<forall>lines i. i < length lines \<and> length (strip (lines ! i)) < 80
        \<and> matches_pattern_list (strip (lines ! i)) h3_patterns
        \<and> suffix '':'' (strip (lines ! i))
      \<longrightarrow> step lines i = (i + 1, [h3 (strip (lines ! i))])
          \<and> snd (step lines i) \<noteq> [strong (strip (lines ! i))])
   \<and> list_all2
        (\<lambda>out line. length line < 80 \<and> matches_pattern_list line h3_patterns \<and> suffix '':'' line
            \<longrightarrow> out = h3 line \<and> out \<noteq> strong line)
        (line_markup (format_result content)) (nonblank (py_split content))"
proof (intro conjI allI impI)
  fix lines :: "string list" and i
  assume a: "i < length lines \<and> length (strip (lines ! i)) < 80
        \<and> matches_pattern_list (strip (lines ! i)) h3_patterns
        \<and> suffix '':'' (strip (lines ! i))"
  then have "strip (lines ! i) \<noteq> []"
    using no_pattern_matches_empty(1) by auto
  then show s: "step lines i = (i + 1, [h3 (strip (lines ! i))])"
    using a by (intro step_h3) auto
  show "snd (step lines i) \<noteq> [strong (strip (lines ! i))]"
    unfolding s by simp
next
  show "list_all2
        (\<lambda>out line. length line < 80 \<and> matches_pattern_list line h3_patterns \<and> suffix '':'' line
            \<longrightarrow> out = h3 line \<and> out \<noteq> strong line)
        (line_markup (format_result content)) (nonblank (py_split content))"
  proof (rule list_all2_mono [OF format_result_emits], intro impI)
    fix out line
    assume e: "emitted out line"
      and c: "length line < 80 \<and> matches_pattern_list line h3_patterns \<and> suffix '':'' line"
    have "out = h3 line"
      using e c by (intro emitted_h3) auto
    then show "out = h3 line \<and> out \<noteq> strong line"
      by simp
  qed
qed

theorem heading_beats_bold_witness:
  "step [''Take a history:'', ''Check pulse''] 0 = (1, [''<h3>Take a history:</h3>''])
   \<and> line_markup (format_result ''Take a history:'') = [''<h3>Take a history:</h3>'']"
proof -
  have h: "0 < length [''Take a history:'', ''Check pulse'']
        \<and> length (strip ([''Take a history:'', ''Check pulse''] ! 0)) < 80
        \<and> matches_pattern_list (strip ([''Take a history:'', ''Check pulse''] ! 0)) h3_patterns
        \<and> suffix '':'' (strip ([''Take a history:'', ''Check pulse''] ! 0))"
    by (simp add: pattern_eval suffix_to_prefix)
  have a: "step [''Take a history:'', ''Check pulse''] 0
           = (0 + 1, [h3 (strip ([''Take a history:'', ''Check pulse''] ! 0))])"
    using heading_beats_bold [THEN conjunct1, rule_format, OF h] by simp
  have n: "nonblank (py_split ''Take a history:'') = [''Take a history:'']"
    by (simp add: nonblank_def pattern_eval)
  have c: "length ''Take a history:'' < 80 \<and> matches_pattern_list ''Take a history:'' h3_patterns
           \<and> suffix '':'' ''Take a history:''"
    by (simp add: pattern_eval suffix_to_prefix)
  have "list_all2
        (\<lambda>out line. length line < 80 \<and> matches_pattern_list line h3_patterns \<and> suffix '':'' line
            \<longrightarrow> out = h3 line \<and> out \<noteq> strong line)
        (line_markup (format_result ''Take a history:'')) [''Take a history:'']"
    using heading_beats_bold [of "''Take a history:''", THEN conjunct2] unfolding n .
  then have b: "line_markup (format_result ''Take a history:'') = [h3 ''Take a history:'']"
    using c by (auto simp: list_all2_Cons2)
  have s: "strip ''Take a history:'' = ''Take a history:''"
    by (simp add: pattern_eval)
  show ?thesis
    using a b by (simp add: s h3_def)
qed

section \<open>Case in the directive and heading patterns\<close>

lemma re_match_lits: "re_match False (lits pre) s = prefix pre s"
proof (induction pre arbitrary: s)
  case Nil
  then show ?case by (simp add: lits_def)
next
  case (Cons c pre)
  then show ?case by (cases s) (auto simp: lits_def)
qed

lemma bold_match_prefix: "bold_match line \<longleftrightarrow> (\<exists>pre\<in>set bold_patterns. prefix pre line)"
  by (simp add: bold_match_def list_ex_iff re_match_lits)

text \<open>A character that is no letter of either case.\<close>

definition caseless :: "char \<Rightarrow> bool" where
  "caseless c = (c \<notin> set upper_letters \<and> c \<notin> set lower_letters)"

lemma lower_char_upper: "c \<in> set upper_letters \<Longrightarrow> lower_char c \<in> set lower_letters"
proof -
  assume "c \<in> set upper_letters"
  moreover have "length upper_letters = length lower_letters"
    by (simp add: upper_letters_def lower_letters_def)
  ultimately obtain l where l: "map_of (zip upper_letters lower_letters) c = Some l"
    by (metis map_of_zip_is_None not_Some_eq)
  then have "l \<in> set lower_letters"
    by (meson map_of_SomeD set_zip_rightD)
  then show ?thesis using l by (simp add: lower_char_def)
qed

lemma lower_char_other: "c \<notin> set upper_letters \<Longrightarrow> lower_char c = c"
proof -
  assume "c \<notin> set upper_letters"
  moreover have "length upper_letters = length lower_letters"
    by (simp add: upper_letters_def lower_letters_def)
  ultimately have "map_of (zip upper_letters lower_letters) c = None"
    by (simp add: map_of_zip_is_None)
  then show ?thesis by (simp add: lower_char_def)
qed

lemma caseless_same: "lower_char c = lower_char d \<Longrightarrow> caseless c \<Longrightarrow> d = c"
proof -
  assume eq: "lower_char c = lower_char d" and c: "caseless c"
  have lc: "lower_char c = c" using c by (simp add: caseless_def lower_char_other)
  show "d = c"
  proof (cases "d \<in> set upper_letters")
    case True
    then have "lower_char d \<in> set lower_letters" by (rule lower_char_upper)
    then show ?thesis using eq lc c by (simp add: caseless_def)
  next
    case False
    then show ?thesis using eq lc by (simp add: lower_char_other)
  qed
qed

lemma caseless_member:
  "lower_char c = lower_char d \<Longrightarrow> \<forall>x\<in>set cs. caseless x \<Longrightarrow> c \<in> set cs \<longleftrightarrow> d \<in> set cs"
  by (metis caseless_same)

lemma whitespace_caseless: "\<forall>x\<in>set whitespace_chars. caseless x"
  by (simp add: whitespace_chars_def caseless_def upper_letters_def lower_letters_def)

lemma digits_caseless: "\<forall>x\<in>set ''1234''. caseless x"
  by (simp add: caseless_def upper_letters_def lower_letters_def)

definition atom_caseless :: "atom \<Rightarrow> bool" where
  "atom_caseless a = (case a of OneOf cs \<Rightarrow> set cs \<subseteq> set ''1234'' | _ \<Rightarrow> True)"

lemma atom_ok_lower:
  assumes "atom_caseless a" and eq: "lower_char c = lower_char d"
  shows "atom_ok True a c = atom_ok True a d"
proof (cases a)
  case (Lit x)
  then show ?thesis using eq by simp
next
  case Space
  have "c \<in> set whitespace_chars \<longleftrightarrow> d \<in> set whitespace_chars"
    by (rule caseless_member [OF eq whitespace_caseless])
  then show ?thesis using Space by (simp add: py_isspace_def)
next
  case (OneOf cs)
  then have "\<forall>x\<in>set cs. caseless x"
    using assms(1) digits_caseless by (auto simp: atom_caseless_def)
  then have "c \<in> set cs \<longleftrightarrow> d \<in> set cs"
    by (rule caseless_member [OF eq])
  then show ?thesis using OneOf by simp
next
  case Eos
  then show ?thesis by simp
qed

lemma newline_only_left:
  assumes m: "map lower_char u = map lower_char v" and u: "u = [newline]"
  shows "v = [newline]"
proof -
  have n: "caseless newline"
    using whitespace_caseless by (simp add: whitespace_chars_def newline_def)
  obtain d where v: "v = [d]" using m u by (cases v) auto
  then have "lower_char newline = lower_char d" using m u by simp
  then have "d = newline" using n by (rule caseless_same)
  then show ?thesis using v by simp
qed

lemma newline_only:
  "map lower_char s = map lower_char t \<Longrightarrow> s = [newline] \<longleftrightarrow> t = [newline]"
  using newline_only_left [of s t] newline_only_left [of t s] by auto

lemma re_match_lower:
  "list_all atom_caseless pat \<Longrightarrow> map lower_char s = map lower_char t \<Longrightarrow>
   re_match True pat s = re_match True pat t"
proof (induction pat arbitrary: s t)
  case Nil
  then show ?case by simp
next
  case (Cons a pat)
  show ?case
  proof (cases "a = Eos")
    case True
    have "s = [] \<longleftrightarrow> t = []" using Cons.prems(2) by (metis map_is_Nil_conv)
    moreover have "s = [newline] \<longleftrightarrow> t = [newline]" using Cons.prems(2) by (rule newline_only)
    moreover have "re_match True pat s = re_match True pat t"
      using Cons.prems by (intro Cons.IH) auto
    ultimately show ?thesis using True by simp
  next
    case False
    show ?thesis
    proof (cases s)
      case Nil
      then have "t = []" using Cons.prems(2) by simp
      then show ?thesis using Nil by simp
    next
      case s: (Cons c s')
      then obtain d t' where t: "t = d # t'" using Cons.prems(2) by (cases t) auto
      have eq: "lower_char c = lower_char d" "map lower_char s' = map lower_char t'"
        using Cons.prems(2) s t by auto
      have "atom_ok True a c = atom_ok True a d"
        using Cons.prems(1) eq(1) by (intro atom_ok_lower) auto
      moreover have "re_match True pat s' = re_match True pat t'"
        using Cons.prems(1) eq(2) by (intro Cons.IH) auto
      ultimately show ?thesis
        using False s t by (cases a) auto
    qed
  qed
qed

lemma lits_caseless [simp]: "list_all atom_caseless (lits s)"
  by (simp add: lits_def list_all_iff atom_caseless_def)

lemma atoms_caseless [simp]:
  "atom_caseless Space" "atom_caseless Eos" "atom_caseless (OneOf ''123'')"
  "atom_caseless (OneOf ''1234'')"
  by (simp_all add: atom_caseless_def)

lemma heading_patterns_caseless:
  "\<forall>pat\<in>set h3_patterns. list_all atom_caseless pat"
  "\<forall>pat\<in>set h4_patterns. list_all atom_caseless pat"
  by (simp_all add: h3_patterns_def h4_patterns_def)

lemma matches_pattern_list_lower:
  assumes "\<forall>pat\<in>set patterns. list_all atom_caseless pat" and "py_lower s = py_lower t"
  shows "matches_pattern_list s patterns = matches_pattern_list t patterns"
proof -
  have "re_match True pat s = re_match True pat t" if "pat \<in> set patterns" for pat
    using assms that by (intro re_match_lower) (auto simp: py_lower_def)
  then show ?thesis
    by (simp add: matches_pattern_list_def list_ex_iff)
qed

lemma step_strong:
  assumes "i < length lines" and s: "snd (step lines i) = [strong (strip (lines ! i))]"
  shows "bold_match (strip (lines ! i)) \<or> suffix '':'' (strip (lines ! i))"
proof -
  let ?line = "strip (lines ! i)"
  have line: "?line \<noteq> []"
  proof
    assume "?line = []"
    then have "snd (step lines i) = []" by (simp add: step_blank)
    then show False using s by simp
  qed
  obtain items where it:
    "nonblank (drop i lines) = items @ nonblank (drop (fst (step lines i)) lines)"
    "list_all2 emitted (line_markup (snd (step lines i))) items"
    using step_emits [OF assms(1)] by blast
  have "line_markup (snd (step lines i)) = [strong ?line]"
    unfolding s by simp
  then obtain x where x: "items = [x]" "emitted (strong ?line) x"
    using it(2) by (auto simp: list_all2_Cons1)
  have "nonblank (drop i lines) = ?line # nonblank (drop (Suc i) lines)"
    using assms(1) line by (rule nonblank_drop_line)
  then have "x = ?line" using it(1) x(1) by simp
  then show ?thesis using x(2) by (simp add: emitted_def)
qed


text \<open>
  Claim C9. The directive prefixes are matched as they are written: \<^verbatim>\<open>bold_match\<close> holds
  exactly when one of the listed prefixes starts the line, character for character. The
  heading patterns ignore case: two lines with the same lower-case form match the same
  lists. A line that starts with none of the prefixes as written (a prefix in another case
  included) and does not end with a colon is never given \<^verbatim>\<open><strong>\<close> markup: not by the pass
  of the loop that meets it, where it becomes a paragraph once the rules before the bold
  rule have not fired, and not in the result of any input.
\<close>

theorem bold_directive_case_sensitive:
  "(bold_match line \<longleftrightarrow> (\<exists>pre\<in>set bold_patterns. prefix pre line))
   \<and> (py_lower line = py_lower line' \<longrightarrow>
        matches_pattern_list line h3_patterns = matches_pattern_list line' h3_patterns
        \<and> matches_pattern_list line h4_patterns = matches_pattern_list line' h4_patterns)
   \<and> (\<forall>lines i. i < length lines \<and> strip (lines ! i) = line
          \<and> \<not> bold_match line \<and> \<not> suffix '':'' line
        \<longrightarrow> snd (step lines i) \<noteq> [strong line]
            \<and> (at_bullet_rule lines i \<and> \<not> bullet_fires lines i
                 \<longrightarrow> step lines i = (i + 1, [p line])))
   \<and> list_all2 (\<lambda>out l. \<not> bold_match l \<and> \<not> suffix '':'' l \<longrightarrow> out \<noteq> strong l)
        (line_markup (format_result content)) (nonblank (py_split content))"
proof (intro conjI allI impI)
  show "bold_match line \<longleftrightarrow> (\<exists>pre\<in>set bold_patterns. prefix pre line)"
    by (rule bold_match_prefix)
next
  assume l: "py_lower line = py_lower line'"
  show "matches_pattern_list line h3_patterns = matches_pattern_list line' h3_patterns"
    using heading_patterns_caseless(1) l by (rule matches_pattern_list_lower)
  show "matches_pattern_list line h4_patterns = matches_pattern_list line' h4_patterns"
    using heading_patterns_caseless(2) l by (rule matches_pattern_list_lower)
next
  fix lines :: "string list" and i
  assume a: "i < length lines \<and> strip (lines ! i) = line
          \<and> \<not> bold_match line \<and> \<not> suffix '':'' line"
  then show "snd (step lines i) \<noteq> [strong line]"
    using step_strong [of i lines] by blast
  assume "at_bullet_rule lines i \<and> \<not> bullet_fires lines i"
  then show "step lines i = (i + 1, [p line])"
    using a step_paragraph [of lines i] by blast
next
  show "list_all2 (\<lambda>out l. \<not> bold_match l \<and> \<not> suffix '':'' l \<longrightarrow> out \<noteq> strong l)
        (line_markup (format_result content)) (nonblank (py_split content))"
    by (rule list_all2_mono [OF format_result_emits]) (auto dest: emitted_strong)
qed

theorem bold_directive_case_sensitive_witness:
  "prefix (py_lower ''Note:'') (py_lower ''NOTE: x'')
   \<and> \<not> bold_match ''NOTE: x''
   \<and> matches_pattern_list ''ABOUT sepsis'' h3_patterns
   \<and> step [''NOTE: x''] 0 = (1, [''<p>NOTE: x</p>''])"
proof -
  have 1: "prefix (py_lower ''Note:'') (py_lower ''NOTE: x'')"
    by (simp add: string_eval)
  have "\<not> (\<exists>pre\<in>set bold_patterns. prefix pre ''NOTE: x'')"
    by (simp add: bold_patterns_def)
  then have 2: "\<not> bold_match ''NOTE: x''"
    using bold_directive_case_sensitive [THEN conjunct1, of "''NOTE: x''"] by blast
  have l: "py_lower ''About sepsis'' = py_lower ''ABOUT sepsis''"
    by (simp add: string_eval)
  have "matches_pattern_list ''About sepsis'' h3_patterns"
    by (simp add: pattern_eval)
  then have 3: "matches_pattern_list ''ABOUT sepsis'' h3_patterns"
    using bold_directive_case_sensitive
            [THEN conjunct2, THEN conjunct1, rule_format, OF l, THEN conjunct1]
    by simp
  have s: "strip ''NOTE: x'' = ''NOTE: x''"
    by (simp add: pattern_eval)
  have h: "0 < length [''NOTE: x''] \<and> strip ([''NOTE: x''] ! 0) = ''NOTE: x''
           \<and> \<not> bold_match ''NOTE: x'' \<and> \<not> suffix '':'' ''NOTE: x''"
    using 2 s by (simp add: suffix_to_prefix)
  have b: "at_bullet_rule [''NOTE: x''] 0 \<and> \<not> bullet_fires [''NOTE: x''] 0"
    by (simp add: at_bullet_rule_def bullet_fires_def no_heading_def pattern_eval loop_eval)
  have 4: "step [''NOTE: x''] 0 = (0 + 1, [p ''NOTE: x''])"
    by (rule bold_directive_case_sensitive
          [THEN conjunct2, THEN conjunct2, THEN conjunct1, rule_format, OF h,
           THEN conjunct2, rule_format, OF b])
  show ?thesis
    using 1 2 3 4 by (simp add: p_def)
qed

section \<open>Headings end the collecting loops\<close>

lemma heading_differs [simp]:
  "numbered n t \<noteq> h3 l" "numbered n t \<noteq> h4 l" "strong l \<noteq> h3 l" "strong l \<noteq> h4 l"
  "p l \<noteq> h3 l" "p l \<noteq> h4 l"
  by (simp_all add: markup_eval)


lemma ul_not_single [simp]: "ul items \<noteq> [x]"
  by (simp add: ul_def)









section \<open>The threshold of the bullet rule\<close>

lemma length_ul [simp]: "length (ul items) = length items + 2"
  by (simp add: ul_def)





section \<open>The sub-items of a numbered line\<close>




end
